theory Spec2Isabelle
  imports Main
begin

section \<open>JavaScript strings and BigInt\<close>

text \<open>
  The transport and helper modules of the Celo node work on JavaScript strings and
  BigInt values. A string is modelled as a \<^typ>\<open>string\<close> of ASCII characters, a BigInt
  as an \<^typ>\<open>int\<close>. A thrown exception is a value of \<open>js_error\<close>, named after its
  JavaScript class and carrying its message; a function that can throw returns
  \<open>js_error + 'a\<close>.
\<close>

datatype js_error =
    Error string
  | SyntaxError string
  | TypeError string
  | RangeError string

subsection \<open>String methods\<close>

text \<open>\<open>s.padStart(n, '0')\<close> and \<open>s.padEnd(n, '0')\<close> with a one-character filler.\<close>

definition padStart :: "string \<Rightarrow> nat \<Rightarrow> char \<Rightarrow> string" where
  "padStart s n c = replicate (n - length s) c @ s"

definition padEnd :: "string \<Rightarrow> nat \<Rightarrow> char \<Rightarrow> string" where
  "padEnd s n c = s @ replicate (n - length s) c"

text \<open>
  \<open>s.slice(b, e)\<close>: a negative index counts from the end, and both indices are clamped
  to the string. \<open>s.slice(b)\<close> runs to the end of the string.
\<close>

definition slice_index :: "nat \<Rightarrow> int \<Rightarrow> nat" where
  "slice_index len i = (if i < 0 then nat (max (int len + i) 0) else min (nat i) len)"

definition slice :: "string \<Rightarrow> int \<Rightarrow> int \<Rightarrow> string" where
  "slice s b e =
     (let from = slice_index (length s) b; to = slice_index (length s) e
      in take (to - from) (drop from s))"

definition slice_from :: "string \<Rightarrow> int \<Rightarrow> string" where
  "slice_from s b = drop (slice_index (length s) b) s"

text \<open>\<open>s.replace(pat, rep)\<close> with a string pattern: only the first occurrence is replaced.\<close>

fun replace :: "string \<Rightarrow> string \<Rightarrow> string \<Rightarrow> string" where
  "replace [] pat rep = (if pat = [] then rep else [])"
| "replace (c # cs) pat rep =
     (if take (length pat) (c # cs) = pat then rep @ drop (length pat) (c # cs)
      else c # replace cs pat rep)"

text \<open>\<open>s.replace(/0+$/, '')\<close>: the run of zeros at the end of the string is removed.\<close>

definition strip_trailing_zeros :: "string \<Rightarrow> string" where
  "strip_trailing_zeros s = rev (dropWhile (\<lambda>c. c = CHR ''0'') (rev s))"

text \<open>\<open>s.split('.')\<close>: the pieces between the separators, at least one piece.\<close>

fun split :: "string \<Rightarrow> char \<Rightarrow> string list" where
  "split [] sep = [[]]"
| "split (c # cs) sep =
     (if c = sep then [] # split cs sep
      else (case split cs sep of [] \<Rightarrow> [[c]] | p # ps \<Rightarrow> (c # p) # ps))"

text \<open>\<open>s.toLowerCase()\<close> on ASCII letters.\<close>

definition toLowerCase_char :: "char \<Rightarrow> char" where
  "toLowerCase_char c =
     (case map_of (zip ''ABCDEFGHIJKLMNOPQRSTUVWXYZ'' ''abcdefghijklmnopqrstuvwxyz'') c of
        None \<Rightarrow> c
      | Some l \<Rightarrow> l)"

definition toLowerCase :: "string \<Rightarrow> string" where
  "toLowerCase s = map toLowerCase_char s"

subsection \<open>BigInt to string\<close>

text \<open>The digit characters of \<open>toString\<close>, for a radix up to 16.\<close>

definition digit_char :: "nat \<Rightarrow> char" where
  "digit_char n = (if n < 16 then ''0123456789abcdef'' ! n else CHR ''?'')"

text \<open>The digits of a natural number in radix \<open>b\<close>, most significant first, no leading zero.\<close>

function digits_of :: "nat \<Rightarrow> nat \<Rightarrow> string" where
  "digits_of b n =
     (if n < b \<or> b \<le> 1 then [digit_char n]
      else digits_of b (n div b) @ [digit_char (n mod b)])"
  by pat_completeness auto
termination
  by (relation "measure (\<lambda>(b, n). n)") auto

declare digits_of.simps [simp del]

text \<open>\<open>v.toString(radix)\<close> of a BigInt: a minus sign, then the digits of the magnitude.\<close>

definition BigInt_toString :: "nat \<Rightarrow> int \<Rightarrow> string" where
  "BigInt_toString radix v =
     (if v < 0 then CHR ''-'' # digits_of radix (nat (- v)) else digits_of radix (nat v))"

subsection \<open>String to BigInt\<close>

definition digit_val :: "char \<Rightarrow> nat option" where
  "digit_val c =
     (let n = (of_char c :: nat) in
      if 48 \<le> n \<and> n \<le> 57 then Some (n - 48)
      else if 97 \<le> n \<and> n \<le> 102 then Some (n - 87)
      else if 65 \<le> n \<and> n \<le> 70 then Some (n - 55)
      else None)"

primrec parse_from :: "nat \<Rightarrow> nat \<Rightarrow> string \<Rightarrow> nat option" where
  "parse_from b acc [] = Some acc"
| "parse_from b acc (c # cs) =
     (case digit_val c of
        None \<Rightarrow> None
      | Some d \<Rightarrow> if d < b then parse_from b (acc * b + d) cs else None)"

text \<open>A literal needs at least one digit.\<close>

definition parse_digits :: "nat \<Rightarrow> string \<Rightarrow> nat option" where
  "parse_digits b s = (if s = [] then None else parse_from b 0 s)"

definition is_whitespace :: "char \<Rightarrow> bool" where
  "is_whitespace c = ((of_char c :: nat) \<in> {9, 10, 11, 12, 13, 32})"

definition trim :: "string \<Rightarrow> string" where
  "trim s = rev (dropWhile is_whitespace (rev (dropWhile is_whitespace s)))"

text \<open>
  \<open>BigInt(str)\<close> (StringToBigInt): white space around the literal is ignored, the empty
  string is zero, a literal is either a radix prefix \<open>0x\<close>, \<open>0o\<close>, \<open>0b\<close> (either case)
  with digits of that radix, or decimal digits with an optional sign. Anything else
  throws a \<open>SyntaxError\<close>.
\<close>

definition string_to_bigint :: "string \<Rightarrow> int option" where
  "string_to_bigint s =
     (if s = [] then Some 0
      else if take 2 s = ''0x'' \<or> take 2 s = ''0X'' then map_option int (parse_digits 16 (drop 2 s))
      else if take 2 s = ''0o'' \<or> take 2 s = ''0O'' then map_option int (parse_digits 8 (drop 2 s))
      else if take 2 s = ''0b'' \<or> take 2 s = ''0B'' then map_option int (parse_digits 2 (drop 2 s))
      else if take 1 s = ''-'' then map_option (\<lambda>n. - int n) (parse_digits 10 (drop 1 s))
      else if take 1 s = ''+'' then map_option int (parse_digits 10 (drop 1 s))
      else map_option int (parse_digits 10 s))"

definition BigInt :: "string \<Rightarrow> js_error + int" where
  "BigInt str =
     (case string_to_bigint (trim str) of
        None \<Rightarrow> Inl (SyntaxError (''Cannot convert '' @ str @ '' to a BigInt''))
      | Some v \<Rightarrow> Inr v)"

text \<open>
  BigInt division truncates toward zero and the remainder takes the sign of the
  dividend. Every divisor in these modules is a power of ten, never zero.
\<close>

definition bigint_div :: "int \<Rightarrow> int \<Rightarrow> int" where
  "bigint_div a b = sgn a * sgn b * (\<bar>a\<bar> div \<bar>b\<bar>)"

definition bigint_mod :: "int \<Rightarrow> int \<Rightarrow> int" where
  "bigint_mod a b = sgn a * (\<bar>a\<bar> mod \<bar>b\<bar>)"

text \<open>Sequencing of computations that can throw: the first exception ends the run.\<close>

definition andThen :: "js_error + 'a \<Rightarrow> ('a \<Rightarrow> js_error + 'b) \<Rightarrow> js_error + 'b" where
  "andThen r f = (case r of Inl e \<Rightarrow> Inl e | Inr x \<Rightarrow> f x)"

subsection \<open>The Number \<open>10 ** decimals\<close>\<close>

text \<open>
  \<open>pow10 decimals\<close> is the source expression \<open>BigInt(10 ** decimals)\<close>, for a count of
  decimals. The power is computed on Numbers, which are IEEE 754 double-precision
  values with a significand of 53 bits, and only then converted to a BigInt. The model
  takes the power as the double nearest to the exact value (ties to even). Through
  \<open>10 ** 22\<close> the power is a double and every engine returns it; at \<open>10 ** 23\<close> the
  nearest double is what the engine returns. From \<open>10 ** 24\<close> on an engine's \<open>**\<close> may
  be one unit in the last place away from the nearest double (V8 is at \<open>10 ** 26\<close>), which
  the model does not follow: the statements below take the power at 23 at most. Beyond
  \<open>10 ** 308\<close> the Number is \<open>Infinity\<close>, which \<open>BigInt\<close> rejects with a \<open>RangeError\<close>.
\<close>

fun bit_length :: "nat \<Rightarrow> nat" where
  "bit_length n = (if n = 0 then 0 else Suc (bit_length (n div 2)))"

declare bit_length.simps [simp del]

definition round_to_double :: "nat \<Rightarrow> nat" where
  "round_to_double n =
     (if bit_length n \<le> 53 then n
      else
        let s = bit_length n - 53; q = n div 2 ^ s; r = n mod 2 ^ s; half = 2 ^ (s - 1)
        in if r > half \<or> (r = half \<and> odd q) then (q + 1) * 2 ^ s else q * 2 ^ s)"

definition pow10 :: "nat \<Rightarrow> js_error + int" where
  "pow10 decimals =
     (if decimals > 308
      then Inl (RangeError ''The number Infinity cannot be converted to a BigInt because it is not an integer'')
      else Inr (int (round_to_double (10 ^ decimals))))"

section \<open>Unit conversion\<close>

subsection \<open>transport/celoClient.ts\<close>

text \<open>
  The first parameter of \<open>formatUnits\<close> has the type \<open>string | bigint\<close>; \<open>decimals\<close> is a
  count, a natural number.
\<close>

datatype amount = AString string | ABigInt int

definition formatUnits :: "amount \<Rightarrow> nat \<Rightarrow> js_error + string" where
  "formatUnits val decimals =
     (let valueStr = (case val of ABigInt v \<Rightarrow> BigInt_toString 10 v | AString s \<Rightarrow> s) in
      andThen (BigInt valueStr) (\<lambda>valueBigInt.
        if valueBigInt = 0 then Inr ''0''
        else
          andThen (pow10 decimals) (\<lambda>divisor.
            let integerPart = bigint_div valueBigInt divisor;
                fractionalPart = bigint_mod valueBigInt divisor
            in if fractionalPart = 0 then Inr (BigInt_toString 10 integerPart)
               else
                 let fractionalStr = padStart (BigInt_toString 10 fractionalPart) decimals CHR ''0'';
                     trimmedFractional = strip_trailing_zeros fractionalStr
                 in Inr (BigInt_toString 10 integerPart @ ''.'' @ trimmedFractional))))"

text \<open>
  \<open>const [integerPart, fractionalPart = ''] = value.split('.')\<close>: the first two pieces,
  the second one defaulting to the empty string.
\<close>

definition parseUnits :: "string \<Rightarrow> nat \<Rightarrow> js_error + string" where
  "parseUnits val decimals =
     (let (integerPart, fractionalPart) =
            (case split val CHR ''.'' of
               [] \<Rightarrow> (''undefined'', '''')
             | [a] \<Rightarrow> (a, '''')
             | a # b # _ \<Rightarrow> (a, b));
          paddedFractional = slice (padEnd fractionalPart decimals CHR ''0'') 0 (int decimals);
          combined = integerPart @ paddedFractional
      in andThen (BigInt combined) (\<lambda>v. Inr (BigInt_toString 10 v)))"

subsection \<open>utils/helpers.ts\<close>

record UnitConversion =
  wei :: string
  gwei :: string
  celo :: string



definition formatTokenAmount :: "string \<Rightarrow> nat \<Rightarrow> string" where
  "formatTokenAmount val decimals =
     (if val = ''0'' \<or> val = '''' then ''0''
      else
        let paddedValue = padStart val (decimals + 1) CHR ''0'';
            integerPart =
              (let p = slice paddedValue 0 (- int decimals) in if p = '''' then ''0'' else p);
            fractionalPart = slice_from paddedValue (- int decimals);
            trimmedFractional = strip_trailing_zeros fractionalPart
        in if trimmedFractional = '''' then integerPart
           else integerPart @ ''.'' @ trimmedFractional)"

section \<open>JavaScript values of type \<open>unknown\<close>\<close>

text \<open>
  Parameters of a contract call, decoded results and the fields of an explorer answer
  are untyped values. A Number is modelled for integral values only, by the integer it
  denotes.
\<close>

datatype jsvalue =
    JUndefined
  | JNull
  | JBool bool
  | JNumber int
  | JString string
  | JArray "jsvalue list"
  | JObject "(string \<times> jsvalue) list"

text \<open>
  \<open>String(n)\<close> for a Number (Number::toString with radix 10). The digits printed are
  the shortest decimal \<open>s\<close>, of \<open>k\<close> digits, such that \<open>s * 10 ^ e\<close> is read back as the
  same double; of two candidates the one nearer to the Number is taken, the even one on
  a tie. With \<open>k + e \<le> 21\<close> the digits are followed by \<open>e\<close> zeros, otherwise the exponent
  form \<open>d.ddde+x\<close> is printed. Below \<open>2 ^ 53\<close> every integer is a double and its shortest
  digits followed by the zeros are all its digits. An integer that is not a double is
  printed as the double nearest to it, the Number that reading it gives.
\<close>

definition shortest_candidates :: "nat \<Rightarrow> nat \<Rightarrow> (nat \<times> nat) list" where
  "shortest_candidates x k =
     (let len = length (digits_of 10 x); e = len - k; lo = x div 10 ^ e; hi = lo + 1
      in filter (\<lambda>(s, e'). 10 ^ (k - 1) \<le> s \<and> s < 10 ^ k \<and> round_to_double (s * 10 ^ e') = x)
           [(lo, e), if hi < 10 ^ k then (hi, e) else (10 ^ (k - 1), e + 1)])"

definition nearest_candidate :: "nat \<Rightarrow> (nat \<times> nat) list \<Rightarrow> (nat \<times> nat) option" where
  "nearest_candidate x cs =
     (case cs of
        [] \<Rightarrow> None
      | [c] \<Rightarrow> Some c
      | (lo, e) # (hi, e') # _ \<Rightarrow>
          let below = x - lo * 10 ^ e; above = hi * 10 ^ e' - x
          in if below < above then Some (lo, e)
             else if above < below then Some (hi, e')
             else if even lo then Some (lo, e) else Some (hi, e'))"

fun shortest_digits :: "nat \<Rightarrow> nat list \<Rightarrow> nat \<times> nat" where
  "shortest_digits x [] = (x, 0)"
| "shortest_digits x (k # ks) =
     (case nearest_candidate x (shortest_candidates x k) of
        None \<Rightarrow> shortest_digits x ks
      | Some c \<Rightarrow> c)"

definition Number_digits :: "nat \<Rightarrow> string" where
  "Number_digits x =
     (let (s, e) = shortest_digits x [1..<18]; d = digits_of 10 s; k = length d; n = k + e
      in if n \<le> 21 then d @ replicate e CHR ''0''
         else (if k = 1 then d else take 1 d @ ''.'' @ drop 1 d) @ ''e+'' @ digits_of 10 (n - 1))"

definition Number_toString :: "int \<Rightarrow> string" where
  "Number_toString n =
     (let x = round_to_double (nat \<bar>n\<bar>);
          body = (if x < 2 ^ 53 then digits_of 10 x else Number_digits x)
      in if n < 0 then CHR ''-'' # body else body)"

fun join :: "string list \<Rightarrow> string \<Rightarrow> string" where
  "join [] sep = []"
| "join [x] sep = x"
| "join (x # y # ys) sep = x @ sep @ join (y # ys) sep"

text \<open>\<open>String(v)\<close>, which is also what a template literal does to \<open>${v}\<close>.\<close>

fun js_String :: "jsvalue \<Rightarrow> string" where
  "js_String JUndefined = ''undefined''"
| "js_String JNull = ''null''"
| "js_String (JBool b) = (if b then ''true'' else ''false'')"
| "js_String (JNumber n) = Number_toString n"
| "js_String (JString s) = s"
| "js_String (JArray xs) =
     join (map (\<lambda>x. if x = JUndefined \<or> x = JNull then [] else js_String x) xs) '',''"
| "js_String (JObject kvs) = ''[object Object]''"

text \<open>The truth value of \<open>v\<close> in a condition.\<close>

fun js_truthy :: "jsvalue \<Rightarrow> bool" where
  "js_truthy JUndefined = False"
| "js_truthy JNull = False"
| "js_truthy (JBool b) = b"
| "js_truthy (JNumber n) = (n \<noteq> 0)"
| "js_truthy (JString s) = (s \<noteq> [])"
| "js_truthy (JArray xs) = True"
| "js_truthy (JObject kvs) = True"

text \<open>\<open>BigInt(v)\<close> on an untyped value.\<close>

fun js_BigInt :: "jsvalue \<Rightarrow> js_error + int" where
  "js_BigInt JUndefined = Inl (TypeError ''Cannot convert undefined to a BigInt'')"
| "js_BigInt JNull = Inl (TypeError ''Cannot convert null to a BigInt'')"
| "js_BigInt (JBool b) = Inr (if b then 1 else 0)"
| "js_BigInt (JNumber n) = Inr n"
| "js_BigInt (JString s) = BigInt s"
| "js_BigInt (JArray xs) = BigInt (js_String (JArray xs))"
| "js_BigInt (JObject kvs) = BigInt (js_String (JObject kvs))"

section \<open>ABI encoding and decoding\<close>

subsection \<open>transport/celoClient.ts\<close>

definition padLeft :: "string \<Rightarrow> nat \<Rightarrow> string" where
  "padLeft hex len = padStart hex len CHR ''0''"

text \<open>
  One round of the loop of \<open>encodeParameters\<close>: the text appended for a parameter of
  the given type. \<open>n\<close> is \<open>types.length\<close>. A type outside the list appends nothing.
\<close>

definition encodeParameter :: "nat \<Rightarrow> string \<Rightarrow> jsvalue \<Rightarrow> js_error + string" where
  "encodeParameter n type val =
     (if type = ''address'' then
        Inr (padLeft (replace (toLowerCase (js_String val)) ''0x'' '''') 64)
      else if type = ''uint256'' \<or> type = ''uint'' then
        andThen (js_BigInt val) (\<lambda>b. let hex = BigInt_toString 16 b in Inr (padLeft hex 64))
      else if type = ''bool'' then
        Inr (padLeft (if js_truthy val then ''1'' else ''0'') 64)
      else if type = ''bytes32'' then
        Inr (padLeft (replace (js_String val) ''0x'' '''') 64)
      else if type = ''string'' \<or> type = ''bytes'' then
        (let offset = n * 32 in Inr (padLeft (digits_of 16 offset) 64))
      else Inr '''')"

text \<open>
  The loop runs over the types; \<open>values[i]\<close> is \<open>undefined\<close> once the values have run
  out.
\<close>

fun encodeParameters_loop ::
  "nat \<Rightarrow> string list \<Rightarrow> jsvalue list \<Rightarrow> string \<Rightarrow> js_error + string" where
  "encodeParameters_loop n [] vals encoded = Inr encoded"
| "encodeParameters_loop n (type # types) vals encoded =
     andThen (encodeParameter n type (case vals of [] \<Rightarrow> JUndefined | v # _ \<Rightarrow> v))
       (\<lambda>w. encodeParameters_loop n types (tl vals) (encoded @ w))"

definition encodeParameters :: "string list \<Rightarrow> jsvalue list \<Rightarrow> js_error + string" where
  "encodeParameters types vals = encodeParameters_loop (length types) types vals ''''"

text \<open>The loop of \<open>decodeResult\<close>, with its running offset and the results so far.\<close>

fun decodeResult_loop ::
  "string \<Rightarrow> string list \<Rightarrow> int \<Rightarrow> jsvalue list \<Rightarrow> js_error + jsvalue list" where
  "decodeResult_loop data [] offset results = Inr results"
| "decodeResult_loop data (type # types) offset results =
     (if type = ''address'' then
        decodeResult_loop data types (offset + 64)
          (results @ [JString (''0x'' @ slice data (offset + 24) (offset + 64))])
      else if type = ''uint256'' \<or> type = ''uint'' then
        andThen (BigInt (''0x'' @ slice data offset (offset + 64)))
          (\<lambda>v. decodeResult_loop data types (offset + 64)
                  (results @ [JString (BigInt_toString 10 v)]))
      else if type = ''bool'' then
        decodeResult_loop data types (offset + 64)
          (results @ [JBool (slice data (offset + 63) (offset + 64) = ''1'')])
      else if type = ''bytes32'' then
        decodeResult_loop data types (offset + 64)
          (results @ [JString (''0x'' @ slice data offset (offset + 64))])
      else decodeResult_loop data types offset results)"

definition decodeResult :: "string \<Rightarrow> string list \<Rightarrow> js_error + jsvalue list" where
  "decodeResult hexResult types =
     (let data = replace hexResult ''0x'' '''' in decodeResult_loop data types 0 [])"

subsection \<open>utils/helpers.ts\<close>

definition decodeAddress :: "string \<Rightarrow> string" where
  "decodeAddress hex =
     (let cleanHex = replace hex ''0x'' '''' in ''0x'' @ toLowerCase (slice_from cleanHex (- 40)))"

definition decodeBool :: "string \<Rightarrow> bool" where
  "decodeBool hex = (let cleanHex = replace hex ''0x'' '''' in slice_from cleanHex (- 1) = ''1'')"

section \<open>Network configuration and transport\<close>

subsection \<open>constants/celo.constants.ts and utils/types.ts\<close>

record NetworkConfig =
  name :: string
  chainId :: nat
  rpcUrl :: string
  explorerUrl :: string
  explorerApiUrl :: string

text \<open>The table \<open>CELO_NETWORKS\<close>; a key outside the table has no entry.\<close>

definition CELO_NETWORKS :: "string \<Rightarrow> NetworkConfig option" where
  "CELO_NETWORKS key =
     (if key = ''mainnet'' then
        Some \<lparr>name = ''Celo Mainnet'', chainId = 42220,
              rpcUrl = ''https://forno.celo.org'',
              explorerUrl = ''https://celoscan.io'',
              explorerApiUrl = ''https://api.celoscan.io/api''\<rparr>
      else if key = ''alfajores'' then
        Some \<lparr>name = ''Alfajores Testnet'', chainId = 44787,
              rpcUrl = ''https://alfajores-forno.celo-testnet.org'',
              explorerUrl = ''https://alfajores.celoscan.io'',
              explorerApiUrl = ''https://api-alfajores.celoscan.io/api''\<rparr>
      else if key = ''baklava'' then
        Some \<lparr>name = ''Baklava Testnet'', chainId = 62320,
              rpcUrl = ''https://baklava-forno.celo-testnet.org'',
              explorerUrl = ''https://baklava-blockscout.celo-testnet.org'',
              explorerApiUrl = ''https://baklava-blockscout.celo-testnet.org/api''\<rparr>
      else None)"

text \<open>An optional field of an interface is \<open>None\<close> when it is absent.\<close>

record CeloCredentials =
  network :: string
  rpcEndpoint :: "string option"
  privateKey :: "string option"
  celoscanApiKey :: "string option"

record RpcErrorObject =
  code :: int
  message :: string
  data :: "jsvalue option"

record 'a JsonRpcResponse =
  rpc_jsonrpc :: string
  rpc_id :: int
  rpc_result :: "'a option"
  rpc_error :: "RpcErrorObject option"

text \<open>
  The answer of the explorer is untyped; its three fields are read as they come, an
  absent one being \<open>undefined\<close>.
\<close>

record ExplorerResponse =
  status :: jsvalue
  explorer_message :: jsvalue
  explorer_result :: jsvalue

subsection \<open>The calling context\<close>

text \<open>
  The host supplies the credentials and performs the HTTP request; either can throw.
  Each call of the transport returns its outcome together with the HTTP requests it
  has issued, in order. \<open>now\<close> is the reading of \<open>Date.now()\<close>.
\<close>

record JsonRpcRequest =
  req_jsonrpc :: string
  req_method :: string
  req_params :: "jsvalue list"
  req_id :: int

record HttpRequestOptions =
  http_method :: string
  http_url :: string
  headers :: "(string \<times> string) list"
  body :: "JsonRpcRequest option"
  qs :: "(string \<times> string) list option"
  json :: bool

record 'r Context =
  getCredentials :: "string \<Rightarrow> js_error + CeloCredentials"
  httpRequest :: "HttpRequestOptions \<Rightarrow> js_error + 'r"
  now :: int

subsection \<open>transport/celoClient.ts\<close>

text \<open>\<open>!credentials.rpcEndpoint\<close> holds for an absent endpoint and for the empty string.\<close>

definition getRpcUrl :: "CeloCredentials \<Rightarrow> js_error + string" where
  "getRpcUrl credentials =
     (let net = network credentials in
      if net = ''custom'' then
        (case rpcEndpoint credentials of
           None \<Rightarrow> Inl (Error ''Custom network requires an RPC endpoint'')
         | Some endpoint \<Rightarrow>
             if endpoint = '''' then Inl (Error ''Custom network requires an RPC endpoint'')
             else Inr endpoint)
      else
        (case CELO_NETWORKS net of
           None \<Rightarrow> Inl (Error (''Unknown network: '' @ net))
         | Some networkConfig \<Rightarrow> Inr (rpcUrl networkConfig)))"

definition getExplorerApiUrl :: "CeloCredentials \<Rightarrow> js_error + string" where
  "getExplorerApiUrl credentials =
     (let net = network credentials in
      if net = ''custom'' \<or> net = ''baklava'' then
        (case CELO_NETWORKS net of
           None \<Rightarrow> Inr ''''
         | Some networkConfig \<Rightarrow> Inr (explorerApiUrl networkConfig))
      else
        (case CELO_NETWORKS net of
           None \<Rightarrow> Inl (Error (''Unknown network: '' @ net))
         | Some networkConfig \<Rightarrow> Inr (explorerApiUrl networkConfig)))"

definition makeRpcCall ::
  "'a JsonRpcResponse Context \<Rightarrow> string \<Rightarrow> jsvalue list \<Rightarrow> nat \<Rightarrow>
     (js_error + 'a option) \<times> HttpRequestOptions list" where
  "makeRpcCall context method params itemIndex =
     (case getCredentials context ''celoApi'' of
        Inl e \<Rightarrow> (Inl e, [])
      | Inr credentials \<Rightarrow>
          (case getRpcUrl credentials of
             Inl e \<Rightarrow> (Inl e, [])
           | Inr endpoint \<Rightarrow>
               let body = \<lparr>req_jsonrpc = ''2.0'', req_method = method, req_params = params,
                           req_id = now context\<rparr>;
                   request = \<lparr>http_method = ''POST'', http_url = endpoint,
                              headers = [(''Content-Type'', ''application/json'')],
                              body = Some body, qs = None, json = True\<rparr>
               in (case httpRequest context request of
                     Inl e \<Rightarrow> (Inl e, [request])
                   | Inr rpcResponse \<Rightarrow>
                       (case rpc_error rpcResponse of
                          Some err \<Rightarrow>
                            (Inl (Error (''RPC Error: '' @ message err @ '' (code: '' @
                                         Number_toString (code err) @ '')'')),
                             [request])
                        | None \<Rightarrow> (Inr (rpc_result rpcResponse), [request])))))"

text \<open>\<open>queryParams.apikey = key\<close> on the copy of the parameters.\<close>

definition assign :: "(string \<times> string) list \<Rightarrow> string \<Rightarrow> string \<Rightarrow> (string \<times> string) list" where
  "assign obj k v =
     (if k \<in> fst ` set obj then map (\<lambda>(k', v'). if k' = k then (k', v) else (k', v')) obj
      else obj @ [(k, v)])"

definition makeExplorerCall ::
  "ExplorerResponse Context \<Rightarrow> (string \<times> string) list \<Rightarrow> nat \<Rightarrow>
     (js_error + jsvalue) \<times> HttpRequestOptions list" where
  "makeExplorerCall context params itemIndex =
     (case getCredentials context ''celoApi'' of
        Inl e \<Rightarrow> (Inl e, [])
      | Inr credentials \<Rightarrow>
          (case getExplorerApiUrl credentials of
             Inl e \<Rightarrow> (Inl e, [])
           | Inr apiUrl \<Rightarrow>
               if apiUrl = '''' then
                 (Inl (Error ''Explorer API not available for this network''), [])
               else
                 let queryParams =
                       (case celoscanApiKey credentials of
                          None \<Rightarrow> params
                        | Some key \<Rightarrow> if key = '''' then params else assign params ''apikey'' key);
                     request = \<lparr>http_method = ''GET'', http_url = apiUrl, headers = [],
                                body = None, qs = Some queryParams, json = True\<rparr>
                 in (case httpRequest context request of
                       Inl e \<Rightarrow> (Inl e, [request])
                     | Inr response \<Rightarrow>
                         if status response = JString ''0'' \<and>
                            explorer_message response \<noteq> JString ''No transactions found''
                         then
                           (Inl (Error (''Explorer API Error: '' @
                                   js_String (if js_truthy (explorer_message response)
                                              then explorer_message response
                                              else explorer_result response))),
                            [request])
                         else (Inr (explorer_result response), [request]))))"

section \<open>Notions used in the statements\<close>

text \<open>
  Digit strings and the number a digit string denotes in a radix, most significant
  digit first (big-endian).
\<close>

definition is_decimal_digit :: "char \<Rightarrow> bool" where
  "is_decimal_digit c = (c \<in> set ''0123456789'')"

definition is_hex_digit :: "char \<Rightarrow> bool" where
  "is_hex_digit c = (c \<in> set ''0123456789abcdefABCDEF'')"

definition digit_value :: "char \<Rightarrow> nat" where
  "digit_value c = (case digit_val c of None \<Rightarrow> 0 | Some d \<Rightarrow> d)"

definition digits_value :: "nat \<Rightarrow> string \<Rightarrow> nat" where
  "digits_value b s = foldl (\<lambda>acc c. acc * b + digit_value c) 0 s"

definition valid_digit :: "nat \<Rightarrow> char \<Rightarrow> bool" where
  "valid_digit b c = (case digit_val c of None \<Rightarrow> False | Some d \<Rightarrow> d < b)"

text \<open>
  The two parts of an amount written with a decimal point, and a fractional part padded
  with zeros on the right and cut to exactly \<open>d\<close> digits.
\<close>

definition integer_digits :: "string \<Rightarrow> string" where
  "integer_digits amount = takeWhile (\<lambda>c. c \<noteq> CHR ''.'') amount"

definition fraction_digits :: "string \<Rightarrow> string" where
  "fraction_digits amount = drop 1 (dropWhile (\<lambda>c. c \<noteq> CHR ''.'') amount)"

definition pad_truncate :: "string \<Rightarrow> nat \<Rightarrow> string" where
  "pad_truncate fp d = take d (fp @ replicate (d - length fp) CHR ''0'')"

section \<open>Lemmas on strings and digits\<close>

subsection \<open>Evaluation on literals\<close>

lemma digits_of_numeral:
  "digits_of b (numeral k) =
     (if numeral k < b \<or> b \<le> 1 then [digit_char (numeral k)]
      else digits_of b (numeral k div b) @ [digit_char (numeral k mod b)])"
  by (rule digits_of.simps)

lemma digits_of_0: "digits_of b 0 = [digit_char 0]"
proof -
  have "0 < b \<or> b \<le> 1" by arith
  then show ?thesis by (subst digits_of.simps) simp
qed

lemma digits_of_Suc_0: "digits_of b (Suc 0) = [digit_char (Suc 0)]"
  by (subst digits_of.simps) (auto simp: digits_of_0)

lemma replicate_numeral: "replicate (numeral k) x = x # replicate (pred_numeral k) x"
  by (simp add: numeral_eq_Suc)

lemmas eval_simps =
  replicate_numeral digits_of_numeral digits_of_0 digits_of_Suc_0 digit_char_def BigInt_toString_def
  toLowerCase_def toLowerCase_char_def BigInt_def string_to_bigint_def trim_def
  is_whitespace_def parse_digits_def digit_val_def

subsection \<open>Digits\<close>

lemma less_16_cases:
  assumes "n < (16::nat)"
  obtains "n = 0" | "n = 1" | "n = 2" | "n = 3" | "n = 4" | "n = 5" | "n = 6" | "n = 7"
    | "n = 8" | "n = 9" | "n = 10" | "n = 11" | "n = 12" | "n = 13" | "n = 14" | "n = 15"
  using assms by atomize_elim arith

lemma digit_val_digit_char: "n < 16 \<Longrightarrow> digit_val (digit_char n) = Some n"
  by (erule less_16_cases) (simp_all add: digit_char_def digit_val_def)

lemma is_decimal_digit_cases:
  assumes "is_decimal_digit c"
  obtains d where "d < 10" "digit_val c = Some d" "digit_char d = c"
  using assms unfolding is_decimal_digit_def
  by (auto simp: digit_val_def digit_char_def)

lemma decimal_digit_valid: "is_decimal_digit c \<Longrightarrow> valid_digit 10 c"
  by (erule is_decimal_digit_cases) (simp add: valid_digit_def)

lemma decimal_digit_char: "d < 10 \<Longrightarrow> is_decimal_digit (digit_char d)"
proof -
  assume "d < 10"
  then have "d < 16" by simp
  then show ?thesis using \<open>d < 10\<close>
    by (cases rule: less_16_cases) (simp_all add: digit_char_def is_decimal_digit_def)
qed

lemma digit_value_digit_char: "n < 16 \<Longrightarrow> digit_value (digit_char n) = n"
  by (simp add: digit_value_def digit_val_digit_char)

lemma valid_digit_char: "n < b \<Longrightarrow> b \<le> 16 \<Longrightarrow> valid_digit b (digit_char n)"
  by (simp add: valid_digit_def digit_val_digit_char)

lemma digits_value_Nil: "digits_value b [] = 0"
  by (simp add: digits_value_def)

lemma digits_value_snoc: "digits_value b (s @ [c]) = digits_value b s * b + digit_value c"
  by (simp add: digits_value_def)

lemma digits_value_append:
  "digits_value b (s @ t) = digits_value b s * b ^ length t + digits_value b t"
proof (induction t rule: rev_induct)
  case Nil
  show ?case by (simp add: digits_value_Nil)
next
  case (snoc c t)
  have "digits_value b (s @ t @ [c]) = digits_value b ((s @ t) @ [c])" by simp
  also have "\<dots> = digits_value b (s @ t) * b + digit_value c" by (rule digits_value_snoc)
  finally show ?case using snoc by (simp add: digits_value_snoc algebra_simps)
qed

lemma digits_value_Cons:
  "digits_value b (c # s) = digit_value c * b ^ length s + digits_value b s"
  using digits_value_append [of b "[c]" s] by (simp add: digits_value_def)

lemma parse_from_valid:
  "list_all (valid_digit b) s \<Longrightarrow>
   parse_from b acc s = Some (acc * b ^ length s + digits_value b s)"
proof (induction s arbitrary: acc)
  case Nil
  show ?case by (simp add: digits_value_Nil)
next
  case (Cons c s)
  from Cons.prems obtain d where d: "digit_val c = Some d" "d < b"
    by (auto simp: valid_digit_def split: option.splits)
  from Cons.prems have "list_all (valid_digit b) s" by simp
  from Cons.IH [OF this] d show ?case
    by (simp add: digits_value_Cons digit_value_def algebra_simps)
qed

lemma digits_value_bound:
  "list_all (valid_digit b) s \<Longrightarrow> digits_value b s < b ^ length s"
proof (induction s rule: rev_induct)
  case Nil
  show ?case by (simp add: digits_value_Nil)
next
  case (snoc c s)
  from snoc.prems have v: "list_all (valid_digit b) s" and c: "valid_digit b c" by simp_all
  from c have d: "digit_value c < b"
    by (auto simp: valid_digit_def digit_value_def split: option.splits)
  from snoc.IH [OF v] have "Suc (digits_value b s) \<le> b ^ length s" by simp
  then have le: "Suc (digits_value b s) * b \<le> b ^ length s * b" by (rule mult_le_mono1)
  from d have "digits_value b s * b + digit_value c < Suc (digits_value b s) * b" by simp
  also note le
  finally show ?case by (simp add: digits_value_snoc mult.commute)
qed

lemma digits_of_props:
  assumes "2 \<le> b" "b \<le> 16"
  shows "list_all (valid_digit b) (digits_of b n) \<and> digits_value b (digits_of b n) = n
         \<and> digits_of b n \<noteq> []"
  using assms
proof (induction b n rule: digits_of.induct)
  case (1 b n)
  show ?case
  proof (cases "n < b")
    case True
    with 1 have "digits_of b n = [digit_char n]" by (subst digits_of.simps) simp
    with True 1(3) show ?thesis
      by (simp add: valid_digit_char digits_value_def digit_value_digit_char)
  next
    case False
    with 1(2) have eq: "digits_of b n = digits_of b (n div b) @ [digit_char (n mod b)]"
      by (subst digits_of.simps) simp
    from False 1(2) have "\<not> (n < b \<or> b \<le> 1)" by simp
    from 1(1) [OF this 1(2) 1(3)] have ih:
      "list_all (valid_digit b) (digits_of b (n div b))"
      "digits_value b (digits_of b (n div b)) = n div b" by simp_all
    from 1(2) have m: "n mod b < b" by simp
    with 1(3) have m16: "n mod b < 16" by simp
    from ih m 1(3) show ?thesis
      by (simp add: eq digits_value_snoc valid_digit_char digit_value_digit_char m16)
  qed
qed

lemma length_digits_of:
  "2 \<le> b \<Longrightarrow> n < b ^ k \<Longrightarrow> 0 < k \<Longrightarrow> length (digits_of b n) \<le> k"
proof (induction b n arbitrary: k rule: digits_of.induct)
  case (1 b n)
  show ?case
  proof (cases "n < b")
    case True
    then have "digits_of b n = [digit_char n]" by (subst digits_of.simps) simp
    with 1(4) show ?thesis by simp
  next
    case False
    with 1(2) have eq: "digits_of b n = digits_of b (n div b) @ [digit_char (n mod b)]"
      by (subst digits_of.simps) simp
    from False 1(2) have nb: "\<not> (n < b \<or> b \<le> 1)" by simp
    obtain j where k: "k = Suc j" using 1(4) by (cases k) auto
    from False 1(3) k have "0 < j" by (cases j) auto
    moreover from 1(3) k 1(2) have "n div b < b ^ j"
      by (simp add: less_mult_imp_div_less mult.commute)
    ultimately have "length (digits_of b (n div b)) \<le> j"
      using 1(1) [OF nb 1(2)] by simp
    with eq k show ?thesis by simp
  qed
qed

lemma digits_of_decimal: "list_all is_decimal_digit (digits_of 10 n)"
proof (induction "10::nat" n rule: digits_of.induct)
  case (1 n)
  show ?case
  proof (cases "n < 10")
    case True
    then have "digits_of 10 n = [digit_char n]" by (subst digits_of.simps) simp
    with True show ?thesis by (simp add: decimal_digit_char)
  next
    case False
    then have eq: "digits_of 10 n = digits_of 10 (n div 10) @ [digit_char (n mod 10)]"
      by (subst digits_of.simps) simp
    from False have "\<not> (n < 10 \<or> (10::nat) \<le> 1)" by simp
    from 1 [OF this] show ?thesis by (simp add: eq decimal_digit_char)
  qed
qed

subsection \<open>BigInt of digit strings\<close>

lemma decimal_not_whitespace: "is_decimal_digit c \<Longrightarrow> \<not> is_whitespace c"
  by (auto simp: is_decimal_digit_def is_whitespace_def)

lemma dropWhile_id: "xs \<noteq> [] \<Longrightarrow> \<not> P (hd xs) \<Longrightarrow> dropWhile P xs = xs"
  by (cases xs) simp_all

lemma trim_id:
  assumes "s = [] \<or> (\<not> is_whitespace (hd s) \<and> \<not> is_whitespace (last s))"
  shows "trim s = s"
proof (cases "s = []")
  case True
  then show ?thesis by (simp add: trim_def)
next
  case False
  with assms have h: "\<not> is_whitespace (hd s)" and l: "\<not> is_whitespace (last s)" by simp_all
  from False h have 1: "dropWhile is_whitespace s = s" by (rule dropWhile_id)
  from False l have "dropWhile is_whitespace (rev s) = rev s"
    by (intro dropWhile_id) (simp_all add: hd_rev)
  with 1 show ?thesis by (simp add: trim_def)
qed

lemma trim_decimal: "list_all is_decimal_digit s \<Longrightarrow> trim s = s"
proof (rule trim_id, cases "s = []")
  case False
  assume a: "list_all is_decimal_digit s"
  from False have "hd s \<in> set s" "last s \<in> set s" by simp_all
  with a have "is_decimal_digit (hd s)" "is_decimal_digit (last s)"
    by (simp_all add: list_all_iff)
  then show "s = [] \<or> (\<not> is_whitespace (hd s) \<and> \<not> is_whitespace (last s))"
    by (simp add: decimal_not_whitespace)
qed simp

lemma string_to_bigint_decimal:
  assumes "list_all is_decimal_digit s"
  shows "string_to_bigint s = Some (int (digits_value 10 s))"
proof (cases s)
  case Nil
  then show ?thesis by (simp add: string_to_bigint_def digits_value_Nil)
next
  case (Cons c cs)
  from assms have v: "list_all (valid_digit 10) s"
    by (simp add: list_all_iff decimal_digit_valid)
  from assms Cons have c: "is_decimal_digit c" by simp
  have p: "parse_digits 10 s = Some (digits_value 10 s)"
    using Cons parse_from_valid [OF v, of 0] by (simp add: parse_digits_def)
  have t1: "take 1 s \<noteq> ''-''" "take 1 s \<noteq> ''+''"
    using c Cons by (auto simp: is_decimal_digit_def)
  have t2: "take 2 s \<noteq> [a, x]" if "\<not> is_decimal_digit x" for a x
    using assms that by (cases s; cases "tl s") auto
  have nd: "\<not> is_decimal_digit CHR ''x''" "\<not> is_decimal_digit CHR ''X''"
    "\<not> is_decimal_digit CHR ''o''" "\<not> is_decimal_digit CHR ''O''"
    "\<not> is_decimal_digit CHR ''b''" "\<not> is_decimal_digit CHR ''B''"
    by (simp_all add: is_decimal_digit_def)
  from Cons t1 t2 [OF nd(1)] t2 [OF nd(2)] t2 [OF nd(3)] t2 [OF nd(4)] t2 [OF nd(5)]
    t2 [OF nd(6)] p
  show ?thesis by (simp add: string_to_bigint_def)
qed

lemma BigInt_decimal:
  "list_all is_decimal_digit s \<Longrightarrow> BigInt s = Inr (int (digits_value 10 s))"
  by (simp add: BigInt_def trim_decimal string_to_bigint_decimal)

lemma BigInt_of_toString: "BigInt (BigInt_toString 10 v) = Inr v"
proof (cases "v < 0")
  case False
  then show ?thesis
    using digits_of_props [of 10 "nat v"]
    by (simp add: BigInt_toString_def BigInt_decimal digits_of_decimal)
next
  case True
  let ?d = "digits_of 10 (nat (- v))"
  have dec: "list_all is_decimal_digit ?d" by (rule digits_of_decimal)
  have ne: "?d \<noteq> []" and val: "digits_value 10 ?d = nat (- v)"
    and vd: "list_all (valid_digit 10) ?d"
    using digits_of_props [of 10 "nat (- v)"] by simp_all
  from ne dec have "is_decimal_digit (last ?d)" by (simp add: list_all_iff)
  then have "\<not> is_whitespace (last (CHR ''-'' # ?d))"
    using ne by (simp add: decimal_not_whitespace)
  moreover have "\<not> is_whitespace (hd (CHR ''-'' # ?d))" by (simp add: is_whitespace_def)
  ultimately have tr: "trim (CHR ''-'' # ?d) = CHR ''-'' # ?d" by (intro trim_id) simp
  have p: "parse_digits 10 ?d = Some (nat (- v))"
    using ne parse_from_valid [OF vd, of 0] val by (simp add: parse_digits_def)
  have "string_to_bigint (CHR ''-'' # ?d) = Some v"
    using p True by (simp add: string_to_bigint_def)
  with True tr show ?thesis by (simp add: BigInt_toString_def BigInt_def)
qed

subsection \<open>Zeros\<close>

lemma digits_value_zeros: "digits_value b (replicate n CHR ''0'') = 0"
  by (induction n) (simp_all add: digits_value_Nil digits_value_Cons digit_value_def digit_val_def)

lemma digits_value_zeros_append:
  "digits_value b (replicate n CHR ''0'' @ s) = digits_value b s"
  by (simp add: digits_value_append digits_value_zeros)

lemma decimal_value_0:
  assumes "list_all is_decimal_digit s" "digits_value 10 s = 0"
  shows "s = replicate (length s) CHR ''0''"
  using assms
proof (induction s)
  case Nil
  show ?case by simp
next
  case (Cons c s)
  from Cons.prems(2) have "digit_value c = 0" "digits_value 10 s = 0"
    by (simp_all add: digits_value_Cons)
  moreover from Cons.prems(1) have "is_decimal_digit c" by simp
  then have "digit_value c = 0 \<Longrightarrow> c = CHR ''0''"
    by (auto simp: is_decimal_digit_def digit_value_def digit_val_def)
  ultimately show ?case using Cons by simp
qed

lemma strip_trailing_zeros_zeros: "strip_trailing_zeros (replicate n CHR ''0'') = []"
  by (simp add: strip_trailing_zeros_def)

lemma strip_trailing_zeros_Nil_iff:
  "strip_trailing_zeros s = [] \<longleftrightarrow> s = replicate (length s) CHR ''0''"
proof
  assume "strip_trailing_zeros s = []"
  then have "\<forall>c\<in>set s. c = CHR ''0''"
    by (simp add: strip_trailing_zeros_def)
  then show "s = replicate (length s) CHR ''0''"
    by (simp add: replicate_length_same)
next
  assume "s = replicate (length s) CHR ''0''"
  then show "strip_trailing_zeros s = []"
    using strip_trailing_zeros_zeros [of "length s"] by simp
qed

subsection \<open>Printing the value of a digit string\<close>

lemma padStart_snoc: "padStart (x @ [c]) (Suc n) z = padStart x n z @ [c]"
  by (simp add: padStart_def)

lemma padStart_digits_of_value:
  assumes "list_all is_decimal_digit s" "s \<noteq> []"
  shows "padStart (digits_of 10 (digits_value 10 s)) (length s) CHR ''0'' = s"
  using assms
proof (induction s rule: rev_induct)
  case Nil
  then show ?case by simp
next
  case (snoc c t)
  from snoc.prems have t: "list_all is_decimal_digit t" and c: "is_decimal_digit c"
    by simp_all
  from c obtain d where d: "d < 10" "digit_val c = Some d" "digit_char d = c"
    by (rule is_decimal_digit_cases)
  then have dv: "digit_value c = d" by (simp add: digit_value_def)
  let ?v = "digits_value 10 t"
  have val: "digits_value 10 (t @ [c]) = ?v * 10 + d" by (simp add: digits_value_snoc dv)
  show ?case
  proof (cases "?v = 0")
    case True
    then have "t = replicate (length t) CHR ''0''" using t by (intro decimal_value_0)
    moreover have "digits_of 10 d = [c]" using d by (subst digits_of.simps) simp
    ultimately show ?thesis
      using True val by (simp add: padStart_def)
  next
    case False
    then have "t \<noteq> []" by (auto simp: digits_value_Nil)
    from snoc.IH [OF t this] have ih: "padStart (digits_of 10 ?v) (length t) CHR ''0'' = t" .
    from False have "\<not> (?v * 10 + d < 10 \<or> (10::nat) \<le> 1)" by simp
    then have "digits_of 10 (?v * 10 + d) = digits_of 10 ((?v * 10 + d) div 10) @
        [digit_char ((?v * 10 + d) mod 10)]"
      by (subst digits_of.simps) simp
    with d have "digits_of 10 (?v * 10 + d) = digits_of 10 ?v @ [c]" by simp
    with ih val show ?thesis by (simp add: padStart_snoc)
  qed
qed

lemma digits_of_value_canonical:
  assumes "list_all is_decimal_digit s" "s \<noteq> []" "length s = 1 \<or> hd s \<noteq> CHR ''0''"
  shows "digits_of 10 (digits_value 10 s) = s"
proof -
  have v: "list_all (valid_digit 10) s"
    using assms(1) by (simp add: list_all_iff decimal_digit_valid)
  have pad: "padStart (digits_of 10 (digits_value 10 s)) (length s) CHR ''0'' = s"
    using assms(1,2) by (rule padStart_digits_of_value)
  have len: "length (digits_of 10 (digits_value 10 s)) \<le> length s"
    using digits_value_bound [OF v] assms(2) by (intro length_digits_of) simp_all
  show ?thesis
  proof (cases "length (digits_of 10 (digits_value 10 s)) = length s")
    case True
    with pad show ?thesis by (simp add: padStart_def)
  next
    case False
    with len have lt: "length (digits_of 10 (digits_value 10 s)) < length s" by simp
    then have "hd (padStart (digits_of 10 (digits_value 10 s)) (length s) CHR ''0'') = CHR ''0''"
      by (cases "length s - length (digits_of 10 (digits_value 10 s))")
         (simp_all add: padStart_def)
    with pad have h: "hd s = CHR ''0''" by simp
    with assms(3) have l1: "length s = 1" by auto
    have "digits_of 10 (digits_value 10 s) \<noteq> []"
      using digits_of_props [of 10 "digits_value 10 s"] by simp
    with lt l1 show ?thesis by simp
  qed
qed

section \<open>The transport\<close>

lemma Number_toString_invalid_params: "Number_toString (- 32602) = ''-32602''"
  by (simp add: Number_toString_def round_to_double_def bit_length.simps Let_def eval_simps)

text \<open>
  C1 (amended). Let the credentials resolve to an RPC endpoint and let the host answer
  the request that \<open>makeRpcCall\<close> builds for it with a response. An error object in the
  response makes the call fail with an \<open>Error\<close> whose message carries the object's
  message and code; without an error object a present result (whatever it is, \<open>null\<close>
  included) is returned; and a response with neither makes the call return
  \<open>undefined\<close>, it does not fail. In each case exactly that one request was issued.
\<close>

theorem makeRpcCall_response:
  assumes "getCredentials context ''celoApi'' = Inr credentials"
    and "getRpcUrl credentials = Inr endpoint"
    and "req = \<lparr>http_method = ''POST'', http_url = endpoint,
                  headers = [(''Content-Type'', ''application/json'')],
                  body = Some \<lparr>req_jsonrpc = ''2.0'', req_method = method,
                                req_params = params, req_id = now context\<rparr>,
                  qs = None, json = True\<rparr>"
    and "httpRequest context req = Inr response"
  shows "(\<forall>err. rpc_error response = Some err \<longrightarrow>
            makeRpcCall context method params itemIndex =
              (Inl (Error (''RPC Error: '' @ message err @ '' (code: '' @
                           Number_toString (code err) @ '')'')), [req]))
       \<and> (\<forall>r. rpc_error response = None \<and> rpc_result response = Some r \<longrightarrow>
            makeRpcCall context method params itemIndex = (Inr (Some r), [req]))
       \<and> (rpc_error response = None \<and> rpc_result response = None \<longrightarrow>
            makeRpcCall context method params itemIndex = (Inr None, [req]))"
  using assms by (simp add: makeRpcCall_def Let_def)

text \<open>
  Two scenarios on the main network: the node answers with the error object
  \<open>{code: -32602, message: "Invalid params"}\<close> of the specification, and the node
  answers with the result \<open>null\<close>.
\<close>

theorem makeRpcCall_response_witness:
  "makeRpcCall
     \<lparr>getCredentials = (\<lambda>_. Inr \<lparr>network = ''mainnet'', rpcEndpoint = None,
                                  privateKey = None, celoscanApiKey = None\<rparr>),
      httpRequest = (\<lambda>_. Inr \<lparr>rpc_jsonrpc = ''2.0'', rpc_id = 1,
                               rpc_result = (None :: jsvalue option),
                               rpc_error = Some \<lparr>code = - 32602,
                                 message = ''Invalid params'', data = None\<rparr>\<rparr>),
      now = 1\<rparr>
     ''eth_call'' [] 0
   = (Inl (Error ''RPC Error: Invalid params (code: -32602)''),
      [\<lparr>http_method = ''POST'', http_url = ''https://forno.celo.org'',
        headers = [(''Content-Type'', ''application/json'')],
        body = Some \<lparr>req_jsonrpc = ''2.0'', req_method = ''eth_call'',
                      req_params = [], req_id = 1\<rparr>,
        qs = None, json = True\<rparr>])
   \<and> makeRpcCall
     \<lparr>getCredentials = (\<lambda>_. Inr \<lparr>network = ''mainnet'', rpcEndpoint = None,
                                  privateKey = None, celoscanApiKey = None\<rparr>),
      httpRequest = (\<lambda>_. Inr \<lparr>rpc_jsonrpc = ''2.0'', rpc_id = 1,
                               rpc_result = Some JNull, rpc_error = None\<rparr>),
      now = 1\<rparr>
     ''eth_call'' [] 0
   = (Inr (Some JNull),
      [\<lparr>http_method = ''POST'', http_url = ''https://forno.celo.org'',
        headers = [(''Content-Type'', ''application/json'')],
        body = Some \<lparr>req_jsonrpc = ''2.0'', req_method = ''eth_call'',
                      req_params = [], req_id = 1\<rparr>,
        qs = None, json = True\<rparr>])"
proof -
  let ?credentials = "\<lparr>network = ''mainnet'', rpcEndpoint = None,
                        privateKey = None, celoscanApiKey = None\<rparr>"
  let ?req = "\<lparr>http_method = ''POST'', http_url = ''https://forno.celo.org'',
                headers = [(''Content-Type'', ''application/json'')],
                body = Some \<lparr>req_jsonrpc = ''2.0'', req_method = ''eth_call'',
                              req_params = [], req_id = 1\<rparr>,
                qs = None, json = True\<rparr>"
  let ?failure = "\<lparr>rpc_jsonrpc = ''2.0'', rpc_id = 1, rpc_result = (None :: jsvalue option),
                    rpc_error = Some \<lparr>code = - 32602, message = ''Invalid params'',
                                       data = None\<rparr>\<rparr>"
  let ?success = "\<lparr>rpc_jsonrpc = ''2.0'', rpc_id = 1, rpc_result = Some JNull,
                    rpc_error = None\<rparr>"
  let ?ctx1 = "\<lparr>getCredentials = (\<lambda>_. Inr ?credentials),
                 httpRequest = (\<lambda>_. Inr ?failure), now = 1\<rparr>"
  let ?ctx2 = "\<lparr>getCredentials = (\<lambda>_. Inr ?credentials),
                 httpRequest = (\<lambda>_. Inr ?success), now = 1\<rparr>"
  have u: "getRpcUrl ?credentials = Inr ''https://forno.celo.org''"
    by (simp add: getRpcUrl_def CELO_NETWORKS_def)
  have c1: "getCredentials ?ctx1 ''celoApi'' = Inr ?credentials" by simp
  have r1: "?req = \<lparr>http_method = ''POST'', http_url = ''https://forno.celo.org'',
                      headers = [(''Content-Type'', ''application/json'')],
                      body = Some \<lparr>req_jsonrpc = ''2.0'', req_method = ''eth_call'',
                                    req_params = [], req_id = now ?ctx1\<rparr>,
                      qs = None, json = True\<rparr>" by simp
  have h1: "httpRequest ?ctx1 ?req = Inr ?failure" by simp
  have c2: "getCredentials ?ctx2 ''celoApi'' = Inr ?credentials" by simp
  have r2: "?req = \<lparr>http_method = ''POST'', http_url = ''https://forno.celo.org'',
                      headers = [(''Content-Type'', ''application/json'')],
                      body = Some \<lparr>req_jsonrpc = ''2.0'', req_method = ''eth_call'',
                                    req_params = [], req_id = now ?ctx2\<rparr>,
                      qs = None, json = True\<rparr>" by simp
  have h2: "httpRequest ?ctx2 ?req = Inr ?success" by simp
  have "makeRpcCall ?ctx1 ''eth_call'' [] 0 =
      (Inl (Error ''RPC Error: Invalid params (code: -32602)''), [?req])"
    using makeRpcCall_response [OF c1 u r1 h1, of 0]
    by (simp add: Number_toString_invalid_params)
  moreover have "makeRpcCall ?ctx2 ''eth_call'' [] 0 = (Inr (Some JNull), [?req])"
    using makeRpcCall_response [OF c2 u r2 h2, of 0] by simp
  ultimately show ?thesis by (rule conjI)
qed

text \<open>
  As stated, C1 fails on a response that has neither result nor error: the call returns
  \<open>undefined\<close>.
\<close>

theorem makeRpcCall_missing_both_counterexample:
  "fst (makeRpcCall
         \<lparr>getCredentials = (\<lambda>_. Inr \<lparr>network = ''mainnet'', rpcEndpoint = None,
                                      privateKey = None, celoscanApiKey = None\<rparr>),
          httpRequest = (\<lambda>_. Inr \<lparr>rpc_jsonrpc = ''2.0'', rpc_id = 1,
                                   rpc_result = (None :: jsvalue option),
                                   rpc_error = None\<rparr>),
          now = 1\<rparr>
         ''eth_call'' [] 0)
   = Inr None"
  by (simp add: makeRpcCall_def getRpcUrl_def CELO_NETWORKS_def)

text \<open>
  C2. Let the credentials resolve to a non-empty explorer address and let the host
  answer the request that \<open>makeExplorerCall\<close> builds for it with a response. A status
  \<open>"0"\<close> makes the call fail unless the message is exactly \<open>"No transactions found"\<close>, in
  which case the call returns the result field; with any other status the call returns
  the result field. In each case exactly that one request was issued.
\<close>

theorem makeExplorerCall_response:
  assumes "getCredentials context ''celoApi'' = Inr credentials"
    and "getExplorerApiUrl credentials = Inr apiUrl" and "apiUrl \<noteq> ''''"
    and "req = \<lparr>http_method = ''GET'', http_url = apiUrl, headers = [], body = None,
                  qs = Some (case celoscanApiKey credentials of
                               None \<Rightarrow> params
                             | Some key \<Rightarrow>
                                 if key = '''' then params else assign params ''apikey'' key),
                  json = True\<rparr>"
    and "httpRequest context req = Inr response"
  shows "(status response = JString ''0'' \<and>
          explorer_message response \<noteq> JString ''No transactions found'' \<longrightarrow>
            makeExplorerCall context params itemIndex =
              (Inl (Error (''Explorer API Error: '' @
                      js_String (if js_truthy (explorer_message response)
                                 then explorer_message response
                                 else explorer_result response))), [req]))
       \<and> (status response = JString ''0'' \<and>
          explorer_message response = JString ''No transactions found'' \<longrightarrow>
            makeExplorerCall context params itemIndex = (Inr (explorer_result response), [req]))
       \<and> (status response \<noteq> JString ''0'' \<longrightarrow>
            makeExplorerCall context params itemIndex = (Inr (explorer_result response), [req]))"
  using assms by (simp add: makeExplorerCall_def Let_def)

text \<open>
  Two scenarios on the main network: status \<open>"0"\<close> with the message \<open>"NOTOK"\<close>, which
  fails, and the scenario of the specification, status \<open>"0"\<close> with the sentinel message
  and an empty result list, which succeeds.
\<close>

theorem makeExplorerCall_response_witness:
  "makeExplorerCall
     \<lparr>getCredentials = (\<lambda>_. Inr \<lparr>network = ''mainnet'', rpcEndpoint = None,
                                  privateKey = None, celoscanApiKey = None\<rparr>),
      httpRequest = (\<lambda>_. Inr \<lparr>status = JString ''0'',
                               explorer_message = JString ''NOTOK'',
                               explorer_result = JString ''Max rate limit reached''\<rparr>),
      now = 1\<rparr>
     [(''module'', ''account'')] 0
   = (Inl (Error ''Explorer API Error: NOTOK''),
      [\<lparr>http_method = ''GET'', http_url = ''https://api.celoscan.io/api'',
        headers = [], body = None, qs = Some [(''module'', ''account'')],
        json = True\<rparr>])
   \<and> makeExplorerCall
     \<lparr>getCredentials = (\<lambda>_. Inr \<lparr>network = ''mainnet'', rpcEndpoint = None,
                                  privateKey = None, celoscanApiKey = None\<rparr>),
      httpRequest = (\<lambda>_. Inr \<lparr>status = JString ''0'',
                               explorer_message = JString ''No transactions found'',
                               explorer_result = JArray []\<rparr>),
      now = 1\<rparr>
     [(''module'', ''account'')] 0
   = (Inr (JArray []),
      [\<lparr>http_method = ''GET'', http_url = ''https://api.celoscan.io/api'',
        headers = [], body = None, qs = Some [(''module'', ''account'')],
        json = True\<rparr>])"
proof -
  let ?credentials = "\<lparr>network = ''mainnet'', rpcEndpoint = None,
                        privateKey = None, celoscanApiKey = None\<rparr>"
  let ?req = "\<lparr>http_method = ''GET'', http_url = ''https://api.celoscan.io/api'',
                headers = [], body = None, qs = Some [(''module'', ''account'')],
                json = True\<rparr>"
  let ?failure = "\<lparr>status = JString ''0'', explorer_message = JString ''NOTOK'',
                    explorer_result = JString ''Max rate limit reached''\<rparr>"
  let ?empty = "\<lparr>status = JString ''0'',
                  explorer_message = JString ''No transactions found'',
                  explorer_result = JArray []\<rparr>"
  let ?ctx1 = "\<lparr>getCredentials = (\<lambda>_. Inr ?credentials),
                 httpRequest = (\<lambda>_. Inr ?failure), now = 1\<rparr>"
  let ?ctx2 = "\<lparr>getCredentials = (\<lambda>_. Inr ?credentials),
                 httpRequest = (\<lambda>_. Inr ?empty), now = 1\<rparr>"
  have u: "getExplorerApiUrl ?credentials = Inr ''https://api.celoscan.io/api''"
    by (simp add: getExplorerApiUrl_def CELO_NETWORKS_def)
  have n: "''https://api.celoscan.io/api'' \<noteq> ''''" by simp
  have r: "?req = \<lparr>http_method = ''GET'', http_url = ''https://api.celoscan.io/api'',
                     headers = [], body = None,
                     qs = Some (case celoscanApiKey ?credentials of
                                  None \<Rightarrow> [(''module'', ''account'')]
                                | Some key \<Rightarrow>
                                    if key = '''' then [(''module'', ''account'')]
                                    else assign [(''module'', ''account'')] ''apikey'' key),
                     json = True\<rparr>" by simp
  have c1: "getCredentials ?ctx1 ''celoApi'' = Inr ?credentials" by simp
  have h1: "httpRequest ?ctx1 ?req = Inr ?failure" by simp
  have c2: "getCredentials ?ctx2 ''celoApi'' = Inr ?credentials" by simp
  have h2: "httpRequest ?ctx2 ?req = Inr ?empty" by simp
  have "makeExplorerCall ?ctx1 [(''module'', ''account'')] 0 =
      (Inl (Error ''Explorer API Error: NOTOK''), [?req])"
    using makeExplorerCall_response [OF c1 u n r h1, of 0] by simp
  moreover have "makeExplorerCall ?ctx2 [(''module'', ''account'')] 0 =
      (Inr (JArray []), [?req])"
    using makeExplorerCall_response [OF c2 u n r h2, of 0] by simp
  ultimately show ?thesis by (rule conjI)
qed

text \<open>
  C8. With the network key \<open>custom\<close> and no RPC endpoint in the credentials (absent, or
  the empty string), \<open>getRpcUrl\<close> throws its configuration error, \<open>makeRpcCall\<close> fails
  with that error, and no HTTP request has been issued.
\<close>

theorem custom_network_without_endpoint:
  assumes "getCredentials context ''celoApi'' = Inr credentials"
    and "network credentials = ''custom''"
    and "rpcEndpoint credentials = None \<or> rpcEndpoint credentials = Some ''''"
  shows "getRpcUrl credentials = Inl (Error ''Custom network requires an RPC endpoint'')
       \<and> makeRpcCall context method params itemIndex =
           (Inl (Error ''Custom network requires an RPC endpoint''), [])"
  using assms by (auto simp: makeRpcCall_def getRpcUrl_def)

text \<open>
  Credentials for the network \<open>custom\<close> without an endpoint.
\<close>

theorem custom_network_without_endpoint_witness:
  "makeRpcCall
     \<lparr>getCredentials = (\<lambda>_. Inr \<lparr>network = ''custom'', rpcEndpoint = None,
                                  privateKey = None, celoscanApiKey = None\<rparr>),
      httpRequest = (\<lambda>_. Inr \<lparr>rpc_jsonrpc = ''2.0'', rpc_id = 1,
                               rpc_result = Some JNull, rpc_error = None\<rparr>),
      now = 1\<rparr>
     ''eth_blockNumber'' [] 0
   = (Inl (Error ''Custom network requires an RPC endpoint''), [])"
proof -
  let ?credentials = "\<lparr>network = ''custom'', rpcEndpoint = None,
                        privateKey = None, celoscanApiKey = None\<rparr>"
  let ?ctx = "\<lparr>getCredentials = (\<lambda>_. Inr ?credentials),
                    httpRequest = (\<lambda>_. Inr \<lparr>rpc_jsonrpc = ''2.0'', rpc_id = 1,
                               rpc_result = Some JNull, rpc_error = None\<rparr>),
                    now = 1\<rparr>"
  have 1: "getCredentials ?ctx ''celoApi'' = Inr ?credentials" by simp
  have 2: "network ?credentials = ''custom''" by simp
  have 3: "rpcEndpoint ?credentials = None \<or> rpcEndpoint ?credentials = Some ''''" by simp
  from custom_network_without_endpoint [OF 1 2 3] show ?thesis by simp
qed

section \<open>Decoding a result word\<close>

lemma replace_0x_prefix: "replace (''0x'' @ h) ''0x'' '''' = h"
  by simp

lemma drop_to_last: "length h = Suc n \<Longrightarrow> drop n h = [last h]"
proof (induction h arbitrary: n)
  case Nil
  then show ?case by simp
next
  case (Cons c h)
  show ?case
  proof (cases n)
    case 0
    with Cons.prems show ?thesis by simp
  next
    case (Suc m)
    with Cons.prems have "length h = Suc m" by simp
    from Cons.IH [OF this] Suc Cons.prems show ?thesis by auto
  qed
qed

lemma slice_last_of_word: "length h = 64 \<Longrightarrow> slice h 63 64 = [last h]"
  using drop_to_last [of h 63] by (simp add: slice_def slice_index_def)

lemma slice_from_last: "h \<noteq> [] \<Longrightarrow> slice_from h (- 1) = [last h]"
proof -
  assume "h \<noteq> []"
  then obtain n where n: "length h = Suc n" by (cases h) auto
  then have "slice_index (length h) (- 1) = n" by (simp add: slice_index_def)
  with drop_to_last [OF n] show ?thesis by (simp add: slice_from_def)
qed

lemma slice_low20_of_word: "length h = 64 \<Longrightarrow> slice h 24 64 = drop 24 h"
  by (simp add: slice_def slice_index_def)

lemma slice_from_low20: "length h = 64 \<Longrightarrow> slice_from h (- 40) = drop 24 h"
  by (simp add: slice_from_def slice_index_def)

lemma decodeBool_word: "length h = 64 \<Longrightarrow> decodeBool (''0x'' @ h) = (last h = CHR ''1'')"
proof -
  assume l: "length h = 64"
  then have "h \<noteq> []" by auto
  then show ?thesis
    unfolding decodeBool_def Let_def replace_0x_prefix by (simp add: slice_from_last)
qed

lemma decodeResult_bool_word:
  "length h = 64 \<Longrightarrow> decodeResult (''0x'' @ h) [''bool''] = Inr [JBool (last h = CHR ''1'')]"
  unfolding decodeResult_def Let_def replace_0x_prefix
  by (simp add: slice_last_of_word)

lemma decodeAddress_word:
  "length h = 64 \<Longrightarrow> decodeAddress (''0x'' @ h) = ''0x'' @ toLowerCase (drop 24 h)"
  unfolding decodeAddress_def Let_def replace_0x_prefix
  by (simp add: slice_from_low20)

lemma decodeResult_address_word:
  "length h = 64 \<Longrightarrow>
   decodeResult (''0x'' @ h) [''address''] = Inr [JString (''0x'' @ drop 24 h)]"
  unfolding decodeResult_def Let_def replace_0x_prefix
  by (simp add: slice_low20_of_word)

lemma hex_digit_value_1: "is_hex_digit c \<Longrightarrow> (digit_value c = 1) = (c = CHR ''1'')"
  by (auto simp: is_hex_digit_def digit_value_def digit_val_def)

lemma hex_digit_value_less: "digit_value c < 16"
  by (auto simp: digit_value_def digit_val_def Let_def)

lemma low_nibble_of_word:
  assumes "h \<noteq> []"
  shows "digits_value 16 h mod 16 = digit_value (last h)"
proof -
  from assms obtain t c where h: "h = t @ [c]" by (cases h rule: rev_cases) auto
  then show ?thesis by (simp add: digits_value_snoc hex_digit_value_less)
qed

text \<open>
  C4 (amended). For every result word of 64 hex digits after the \<open>0x\<close> prefix, both
  decoders return true exactly when the last hex digit of the word is \<open>1\<close>, that is
  when the low four bits of the word are \<open>0001\<close>.
\<close>

theorem decode_bool_last_hex_digit:
  assumes "length h = 64" and "list_all is_hex_digit h"
  shows "decodeBool (''0x'' @ h) = (digits_value 16 h mod 16 = 1)
       \<and> decodeResult (''0x'' @ h) [''bool''] = Inr [JBool (digits_value 16 h mod 16 = 1)]
       \<and> (digits_value 16 h mod 16 = 1) = (last h = CHR ''1'')"
proof -
  from assms(1) have ne: "h \<noteq> []" by auto
  with assms(2) have "is_hex_digit (last h)" by (simp add: list_all_iff)
  then have "(digits_value 16 h mod 16 = 1) = (last h = CHR ''1'')"
    using hex_digit_value_1 [of "last h"] by (simp add: low_nibble_of_word [OF ne])
  then show ?thesis
    by (simp only: decodeBool_word [OF assms(1)] decodeResult_bool_word [OF assms(1)])
qed

text \<open>
  The word of the test suite that decodes to true.
\<close>

theorem decode_bool_last_hex_digit_witness:
  "decodeBool ''0x0000000000000000000000000000000000000000000000000000000000000001''
   \<and> decodeResult ''0x0000000000000000000000000000000000000000000000000000000000000001''
        [''bool''] = Inr [JBool True]"
proof -
  let ?h = "''0000000000000000000000000000000000000000000000000000000000000001''"
  have 1: "length ?h = 64" by simp
  have 2: "list_all is_hex_digit ?h" by (simp add: is_hex_digit_def)
  have 3: "last ?h = CHR ''1''" by simp
  from decode_bool_last_hex_digit [OF 1 2] 3 show ?thesis by simp
qed

text \<open>
  As stated, C4 fails on the word 3: its low-order bit is 1 and both decoders return
  false.
\<close>

theorem decode_bool_low_bit_counterexample:
  "odd (digits_value 16 ''0000000000000000000000000000000000000000000000000000000000000003'')
   \<and> \<not> decodeBool ''0x0000000000000000000000000000000000000000000000000000000000000003''
   \<and> decodeResult ''0x0000000000000000000000000000000000000000000000000000000000000003''
        [''bool''] = Inr [JBool False]"
proof -
  let ?h = "''0000000000000000000000000000000000000000000000000000000000000003''"
  have 1: "length ?h = 64" by simp
  have "digits_value 16 ?h = 3"
    using digits_value_zeros_append [of 16 63 "''3''"]
    by (simp add: digits_value_def digit_value_def digit_val_def)
  then have "odd (digits_value 16 ?h)" by simp
  moreover have "\<not> decodeBool (''0x'' @ ?h)"
    by (simp only: decodeBool_word [OF 1]) simp
  moreover have "decodeResult (''0x'' @ ?h) [''bool''] = Inr [JBool False]"
    by (simp only: decodeResult_bool_word [OF 1]) simp
  ultimately show ?thesis by simp
qed

text \<open>
  C5. On a result word whose address digits are in upper case, \<open>decodeAddress\<close> returns
  the low 20 bytes in lower case, while the address branch of \<open>decodeResult\<close> returns
  them as they are.
\<close>

theorem decodeResult_address_keeps_case:
  "decodeAddress ''0x000000000000000000000000ABCDEF1234567890ABCDEF1234567890ABCDEF12''
     = ''0xabcdef1234567890abcdef1234567890abcdef12''
   \<and> decodeResult ''0x000000000000000000000000ABCDEF1234567890ABCDEF1234567890ABCDEF12''
        [''address''] = Inr [JString ''0xABCDEF1234567890ABCDEF1234567890ABCDEF12'']"
proof -
  let ?h = "''000000000000000000000000ABCDEF1234567890ABCDEF1234567890ABCDEF12''"
  have 1: "length ?h = 64" by simp
  have "decodeAddress (''0x'' @ ?h) = ''0xabcdef1234567890abcdef1234567890abcdef12''"
    by (simp only: decodeAddress_word [OF 1]) (simp add: toLowerCase_def toLowerCase_char_def)
  moreover have "decodeResult (''0x'' @ ?h) [''address''] =
      Inr [JString ''0xABCDEF1234567890ABCDEF1234567890ABCDEF12'']"
    by (simp only: decodeResult_address_word [OF 1]) simp
  ultimately show ?thesis by simp
qed

section \<open>Splitting at the decimal point\<close>

lemma split_not_Nil: "split s sep \<noteq> []"
  by (induction s) (auto split: list.splits)

lemma split_no_sep: "sep \<notin> set s \<Longrightarrow> split s sep = [s]"
  by (induction s) auto

lemma split_at_first: "sep \<notin> set a \<Longrightarrow> split (a @ sep # r) sep = a # split r sep"
  by (induction a) (auto split: list.splits simp: split_not_Nil)

lemma takeWhile_before_sep:
  "sep \<notin> set a \<Longrightarrow> takeWhile (\<lambda>c. c \<noteq> sep) (a @ sep # r) = a"
  by (induction a) auto

lemma dropWhile_before_sep:
  "sep \<notin> set a \<Longrightarrow> dropWhile (\<lambda>c. c \<noteq> sep) (a @ sep # r) = sep # r"
  by (induction a) auto

lemma takeWhile_no_sep: "sep \<notin> set s \<Longrightarrow> takeWhile (\<lambda>c. c \<noteq> sep) s = s"
  by (induction s) auto

lemma dropWhile_no_sep: "sep \<notin> set s \<Longrightarrow> dropWhile (\<lambda>c. c \<noteq> sep) s = []"
  by (induction s) auto


subsection \<open>The piece that \<open>convertUnits\<close> converts\<close>



lemma pow10_18: "pow10 18 = Inr 1000000000000000000"
  by (simp add: pow10_def round_to_double_def bit_length.simps Let_def)





subsection \<open>The pieces that \<open>parseUnits\<close> joins\<close>

lemma split_at_most_one_point:
  assumes "count_list amount CHR ''.'' \<le> 1"
  shows "split amount CHR ''.'' =
           (if CHR ''.'' \<in> set amount then [integer_digits amount, fraction_digits amount]
            else [amount])
         \<and> (CHR ''.'' \<notin> set amount \<longrightarrow>
              integer_digits amount = amount \<and> fraction_digits amount = [])"
proof (cases "CHR ''.'' \<in> set amount")
  case False
  then show ?thesis
    by (simp add: split_no_sep integer_digits_def fraction_digits_def takeWhile_no_sep
        dropWhile_no_sep)
next
  case True
  then obtain a r where s: "amount = a @ CHR ''.'' # r" and a: "CHR ''.'' \<notin> set a"
    by (auto dest: split_list_first)
  from assms s have "count_list r CHR ''.'' = 0" by simp
  then have r: "CHR ''.'' \<notin> set r" by (simp add: count_list_0_iff)
  have "split amount CHR ''.'' = [a, r]"
    unfolding s split_at_first [OF a] split_no_sep [OF r] ..
  moreover have "integer_digits amount = a"
    unfolding s integer_digits_def by (rule takeWhile_before_sep [OF a])
  moreover have "fraction_digits amount = r"
    unfolding s fraction_digits_def dropWhile_before_sep [OF a] by simp
  ultimately show ?thesis using True by simp
qed

lemma slice_pad_truncate:
  "slice (padEnd fp d CHR ''0'') 0 (int d) = pad_truncate fp d"
  by (simp add: slice_def slice_index_def padEnd_def pad_truncate_def min_def)

lemma length_pad_truncate: "length (pad_truncate fp d) = d"
  by (simp add: pad_truncate_def)

lemma parseUnits_structure:
  assumes "count_list amount CHR ''.'' \<le> 1"
  shows "parseUnits amount d =
           andThen (BigInt (integer_digits amount @ pad_truncate (fraction_digits amount) d))
             (\<lambda>v. Inr (BigInt_toString 10 v))"
proof (cases "CHR ''.'' \<in> set amount")
  case True
  with split_at_most_one_point [OF assms]
  have "split amount CHR ''.'' = [integer_digits amount, fraction_digits amount]" by simp
  then show ?thesis by (simp add: parseUnits_def slice_pad_truncate)
next
  case False
  with split_at_most_one_point [OF assms]
  have "split amount CHR ''.'' = [amount]" "integer_digits amount = amount"
    "fraction_digits amount = []" by simp_all
  then show ?thesis by (simp add: parseUnits_def slice_pad_truncate)
qed

lemma decimal_pad_truncate:
  assumes "list_all is_decimal_digit fp"
  shows "list_all is_decimal_digit (pad_truncate fp d)"
proof -
  have "is_decimal_digit CHR ''0''" by (simp add: is_decimal_digit_def)
  with assms have "\<forall>c \<in> set (fp @ replicate (d - length fp) CHR ''0''). is_decimal_digit c"
    by (auto simp: list_all_iff)
  then show ?thesis
    unfolding pad_truncate_def list_all_iff by (blast dest: in_set_takeD)
qed

lemma digits_value_take:
  assumes "list_all (valid_digit b) s" "k \<le> length s"
  shows "digits_value b (take k s) = digits_value b s div b ^ (length s - k)"
proof -
  have v: "list_all (valid_digit b) (drop k s)"
    using assms(1) by (auto simp: list_all_iff dest: in_set_dropD)
  have "digits_value b s = digits_value b (take k s @ drop k s)" by simp
  also have "\<dots> = digits_value b (take k s) * b ^ (length s - k) + digits_value b (drop k s)"
    by (simp only: digits_value_append length_drop)
  finally have eq: "digits_value b s =
      digits_value b (take k s) * b ^ (length s - k) + digits_value b (drop k s)" .
  from digits_value_bound [OF v] have lt: "digits_value b (drop k s) < b ^ (length s - k)"
    by simp
  then have "b ^ (length s - k) \<noteq> 0" by (rule gr_implies_not0)
  then have "(digits_value b (take k s) * b ^ (length s - k) + digits_value b (drop k s))
      div b ^ (length s - k) =
      digits_value b (take k s) + digits_value b (drop k s) div b ^ (length s - k)"
    by (rule div_mult_self3)
  with lt eq show ?thesis by simp
qed

lemma digits_value_pad_truncate:
  assumes "list_all is_decimal_digit fp"
  shows "digits_value 10 (pad_truncate fp d) = digits_value 10 fp * 10 ^ d div 10 ^ length fp"
proof (cases "length fp \<le> d")
  case True
  then have "pad_truncate fp d = fp @ replicate (d - length fp) CHR ''0''"
    by (simp add: pad_truncate_def)
  then have "digits_value 10 (pad_truncate fp d) = digits_value 10 fp * 10 ^ (d - length fp)"
    by (simp add: digits_value_append digits_value_zeros)
  moreover from True have "(10::nat) ^ d = 10 ^ length fp * 10 ^ (d - length fp)"
    by (simp add: power_add [symmetric])
  ultimately show ?thesis by simp
next
  case False
  then have lt: "d < length fp" by simp
  then have pt: "pad_truncate fp d = take d fp" by (simp add: pad_truncate_def)
  have v: "list_all (valid_digit 10) fp"
    using assms by (simp add: list_all_iff decimal_digit_valid)
  from lt have "(10::nat) ^ length fp = 10 ^ d * 10 ^ (length fp - d)"
    by (simp add: power_add [symmetric])
  then have "digits_value 10 fp * 10 ^ d div 10 ^ length fp =
      digits_value 10 fp div 10 ^ (length fp - d)"
    by (simp add: mult.commute)
  with digits_value_take [OF v, of d] lt pt show ?thesis by simp
qed

text \<open>
  C7. For an amount with at most one decimal point, \<open>parseUnits\<close> pads the fractional
  part with zeros on the right and cuts it to exactly \<open>decimals\<close> digits, appends that
  to the integer part and converts the result with \<open>BigInt\<close>. On digit strings the
  outcome is the amount times \<open>10 ^ decimals\<close> rounded toward zero: digits beyond the
  precision are dropped.
\<close>

theorem parseUnits_pads_and_truncates:
  assumes "count_list amount CHR ''.'' \<le> 1"
  shows "parseUnits amount d =
           andThen (BigInt (integer_digits amount @ pad_truncate (fraction_digits amount) d))
             (\<lambda>v. Inr (BigInt_toString 10 v))
       \<and> length (pad_truncate (fraction_digits amount) d) = d
       \<and> (list_all is_decimal_digit (integer_digits amount) \<and>
          list_all is_decimal_digit (fraction_digits amount) \<longrightarrow>
            parseUnits amount d =
              Inr (digits_of 10
                    (digits_value 10 (integer_digits amount) * 10 ^ d +
                     digits_value 10 (fraction_digits amount) * 10 ^ d div
                       10 ^ length (fraction_digits amount))))"
proof -
  let ?ip = "integer_digits amount" and ?fp = "fraction_digits amount"
  note st = parseUnits_structure [OF assms, of d]
  have "parseUnits amount d =
      Inr (digits_of 10 (digits_value 10 ?ip * 10 ^ d +
                         digits_value 10 ?fp * 10 ^ d div 10 ^ length ?fp))"
    if i: "list_all is_decimal_digit ?ip" and f: "list_all is_decimal_digit ?fp"
  proof -
    from i decimal_pad_truncate [OF f, of d]
    have "list_all is_decimal_digit (?ip @ pad_truncate ?fp d)" by simp
    then have "BigInt (?ip @ pad_truncate ?fp d) =
        Inr (int (digits_value 10 (?ip @ pad_truncate ?fp d)))"
      by (rule BigInt_decimal)
    then have "parseUnits amount d =
        Inr (digits_of 10 (digits_value 10 (?ip @ pad_truncate ?fp d)))"
      unfolding st by (simp add: andThen_def BigInt_toString_def)
    then show ?thesis
      by (simp only: digits_value_append length_pad_truncate digits_value_pad_truncate [OF f])
  qed
  then have "list_all is_decimal_digit ?ip \<and> list_all is_decimal_digit ?fp \<longrightarrow>
      parseUnits amount d =
        Inr (digits_of 10 (digits_value 10 ?ip * 10 ^ d +
                           digits_value 10 ?fp * 10 ^ d div 10 ^ length ?fp))"
    by (intro impI) (elim conjE)
  with st length_pad_truncate [of ?fp d] show ?thesis by (intro conjI)
qed

text \<open>
  The boundary case of the specification: \<open>parseUnits("0.1", 18)\<close>.
\<close>

theorem parseUnits_pads_and_truncates_witness:
  "parseUnits ''0.1'' 18 = Inr ''100000000000000000''"
proof -
  have c: "count_list ''0.1'' CHR ''.'' \<le> 1" by simp
  have i: "integer_digits ''0.1'' = ''0''" by (simp add: integer_digits_def)
  have f: "fraction_digits ''0.1'' = ''1''" by (simp add: fraction_digits_def)
  have d: "list_all is_decimal_digit ''0''" "list_all is_decimal_digit ''1''"
    by (simp_all add: is_decimal_digit_def)
  have v: "digits_value 10 ''0'' = 0" "digits_value 10 ''1'' = 1"
    by (simp_all add: digits_value_def digit_value_def digit_val_def)
  from parseUnits_pads_and_truncates [OF c, of 18]
  have "list_all is_decimal_digit (integer_digits ''0.1'') \<and>
        list_all is_decimal_digit (fraction_digits ''0.1'') \<longrightarrow>
        parseUnits ''0.1'' 18 =
          Inr (digits_of 10
                (digits_value 10 (integer_digits ''0.1'') * 10 ^ 18 +
                 digits_value 10 (fraction_digits ''0.1'') * 10 ^ 18 div
                   10 ^ length (fraction_digits ''0.1'')))"
    by blast
  then have "parseUnits ''0.1'' 18 = Inr (digits_of 10 (0 * 10 ^ 18 + 1 * 10 ^ 18 div 10 ^ 1))"
    unfolding i f v using d by simp
  then show ?thesis by (simp add: eval_simps)
qed

section \<open>Encoding an unsigned integer\<close>

lemma BigInt_toString_nonneg: "0 \<le> v \<Longrightarrow> BigInt_toString r v = digits_of r (nat v)"
  by (simp add: BigInt_toString_def)

lemma encodeParameters_uint:
  assumes "type = ''uint256'' \<or> type = ''uint''"
  shows "encodeParameters [type] [val] =
           andThen (js_BigInt val) (\<lambda>b. Inr (padLeft (BigInt_toString 16 b) 64))"
  using assms
  by (auto simp: encodeParameters_def encodeParameter_def andThen_def Let_def
      split: sum.splits)

lemma digit_char_0_iff: "d < 16 \<Longrightarrow> (digit_char d = CHR ''0'') = (d = 0)"
  by (erule less_16_cases) (simp_all add: digit_char_def)

lemma digits_of_no_leading_zero:
  "2 \<le> b \<Longrightarrow> b \<le> 16 \<Longrightarrow> n \<noteq> 0 \<Longrightarrow> hd (digits_of b n) \<noteq> CHR ''0''"
proof (induction b n rule: digits_of.induct)
  case (1 b n)
  show ?case
  proof (cases "n < b")
    case True
    then have "digits_of b n = [digit_char n]" by (subst digits_of.simps) simp
    moreover from True 1(3) have "n < 16" by simp
    ultimately show ?thesis using 1(4) by (simp add: digit_char_0_iff)
  next
    case False
    with 1(2) have eq: "digits_of b n = digits_of b (n div b) @ [digit_char (n mod b)]"
      by (subst digits_of.simps) simp
    from False 1(2) have nb: "\<not> (n < b \<or> b \<le> 1)" by simp
    from False 1(2) have "n div b \<noteq> 0" by (simp add: div_eq_0_iff)
    from 1(1) [OF nb 1(2) 1(3) this] have "hd (digits_of b (n div b)) \<noteq> CHR ''0''" .
    moreover have "digits_of b (n div b) \<noteq> []"
      using digits_of_props [OF 1(2) 1(3)] by simp
    ultimately show ?thesis by (simp add: eq)
  qed
qed

lemma uint256_word:
  assumes "0 \<le> v" "v < 2 ^ 256"
  shows "length (padLeft (BigInt_toString 16 v) 64) = 64"
    and "padLeft (BigInt_toString 16 v) 64 =
           replicate (64 - length (digits_of 16 (nat v))) CHR ''0'' @ digits_of 16 (nat v)"
    and "digits_value 16 (padLeft (BigInt_toString 16 v) 64) = nat v"
proof -
  have "(16::nat) ^ 64 = 2 ^ 256" by simp
  with assms have "nat v < 16 ^ 64" by (simp add: nat_less_iff)
  then have len: "length (digits_of 16 (nat v)) \<le> 64"
    by (intro length_digits_of) simp_all
  from assms(1) have ts: "BigInt_toString 16 v = digits_of 16 (nat v)"
    by (rule BigInt_toString_nonneg)
  from len show "length (padLeft (BigInt_toString 16 v) 64) = 64"
    by (simp add: ts padLeft_def padStart_def)
  show "padLeft (BigInt_toString 16 v) 64 =
      replicate (64 - length (digits_of 16 (nat v))) CHR ''0'' @ digits_of 16 (nat v)"
    by (simp add: ts padLeft_def padStart_def)
  have "digits_value 16 (digits_of 16 (nat v)) = nat v"
    using digits_of_props [of 16 "nat v"] by simp
  then show "digits_value 16 (padLeft (BigInt_toString 16 v) 64) = nat v"
    by (simp add: ts padLeft_def padStart_def digits_value_zeros_append)
qed

text \<open>
  C3 (amended). A value of ABI type \<open>uint256\<close> or \<open>uint\<close> that \<open>BigInt\<close> converts to
  \<open>v\<close> is encoded as the hexadecimal digits of \<open>v\<close> padded on the left with zeros to 64
  characters, and this never fails on account of the size or sign of \<open>v\<close>. When
  \<open>0 \<le> v < 2 ^ 256\<close> the outcome is exactly one word of 64 hex digits that denotes \<open>v\<close>,
  made of zeros followed by the minimal hexadecimal digits of \<open>v\<close>.
\<close>

theorem encode_uint256_word:
  assumes "type = ''uint256'' \<or> type = ''uint''" and "js_BigInt val = Inr v"
  shows "encodeParameters [type] [val] = Inr (padLeft (BigInt_toString 16 v) 64)
       \<and> (0 \<le> v \<and> v < 2 ^ 256 \<longrightarrow>
            length (padLeft (BigInt_toString 16 v) 64) = 64
          \<and> padLeft (BigInt_toString 16 v) 64 =
              replicate (64 - length (digits_of 16 (nat v))) CHR ''0'' @ digits_of 16 (nat v)
          \<and> digits_value 16 (padLeft (BigInt_toString 16 v) 64) = nat v
          \<and> (v \<noteq> 0 \<longrightarrow> take 1 (digits_of 16 (nat v)) \<noteq> ''0''))"
proof -
  have "encodeParameters [type] [val] = Inr (padLeft (BigInt_toString 16 v) 64)"
    unfolding encodeParameters_uint [OF assms(1)] assms(2) by (simp add: andThen_def)
  moreover have "take 1 (digits_of 16 (nat v)) \<noteq> ''0''" if "0 \<le> v" "v \<noteq> 0"
  proof -
    from that have "hd (digits_of 16 (nat v)) \<noteq> CHR ''0''"
      by (intro digits_of_no_leading_zero) simp_all
    then show ?thesis by (cases "digits_of 16 (nat v)") auto
  qed
  ultimately show ?thesis
    using uint256_word [of v] by (intro conjI impI) simp_all
qed

text \<open>
  The value 255 is encoded as one word ending in \<open>ff\<close>.
\<close>

theorem encode_uint256_word_witness:
  "encodeParameters [''uint256''] [JNumber 255] =
     Inr ''00000000000000000000000000000000000000000000000000000000000000ff''
   \<and> length (padLeft (BigInt_toString 16 255) 64) = 64
   \<and> digits_value 16 (padLeft (BigInt_toString 16 255) 64) = 255"
proof -
  have 1: "''uint256'' = ''uint256'' \<or> ''uint256'' = ''uint''" by simp
  have 2: "js_BigInt (JNumber 255) = Inr 255" by simp
  have 3: "(0::int) \<le> 255 \<and> (255::int) < 2 ^ 256" by simp
  have 4: "padLeft (BigInt_toString 16 255) 64 =
      ''00000000000000000000000000000000000000000000000000000000000000ff''"
    by (simp add: padLeft_def padStart_def eval_simps)
  from encode_uint256_word [OF 1 2] 3
  have "encodeParameters [''uint256''] [JNumber 255] = Inr (padLeft (BigInt_toString 16 255) 64)
      \<and> length (padLeft (BigInt_toString 16 255) 64) = 64
      \<and> digits_value 16 (padLeft (BigInt_toString 16 255) 64) = nat 255"
    by blast
  then show ?thesis by (simp add: 4)
qed

text \<open>
  As stated, C3 fails on \<open>-1\<close> and on \<open>2 ^ 256\<close>: neither is rejected, and the outcome is
  a text with a minus sign, or one of 65 characters.
\<close>

theorem encode_uint256_no_range_check_counterexample:
  "encodeParameters [''uint256''] [JNumber (- 1)] =
     Inr ''00000000000000000000000000000000000000000000000000000000000000-1''
   \<and> encodeParameters [''uint256''] [JNumber (2 ^ 256)] =
     Inr ''10000000000000000000000000000000000000000000000000000000000000000''"
  by (simp add: encodeParameters_def encodeParameter_def andThen_def padLeft_def padStart_def
      eval_simps)

section \<open>Formatting an amount\<close>

lemma le_22_cases:
  assumes "d \<le> (22::nat)"
  obtains "d = 0" | "d = 1" | "d = 2" | "d = 3" | "d = 4" | "d = 5" | "d = 6" | "d = 7"
    | "d = 8" | "d = 9" | "d = 10" | "d = 11" | "d = 12" | "d = 13" | "d = 14" | "d = 15"
    | "d = 16" | "d = 17" | "d = 18" | "d = 19" | "d = 20" | "d = 21" | "d = 22"
  using assms by atomize_elim arith

lemma pow10_exact: "d \<le> 22 \<Longrightarrow> pow10 d = Inr (10 ^ d)"
  by (erule le_22_cases)
     (simp_all add: pow10_def round_to_double_def bit_length.simps Let_def)

lemma bigint_div_nonneg: "0 \<le> a \<Longrightarrow> 0 < b \<Longrightarrow> bigint_div a b = a div b"
  by (cases "a = 0") (simp_all add: bigint_div_def)

lemma bigint_mod_nonneg: "0 \<le> a \<Longrightarrow> 0 < b \<Longrightarrow> bigint_mod a b = a mod b"
  by (cases "a = 0") (simp_all add: bigint_mod_def)

text \<open>
  Up to 22 decimals the power is exact, and \<open>formatUnits\<close> divides by \<open>10 ^ decimals\<close>
  exactly: the integer part, and after the point the remainder padded to \<open>decimals\<close>
  digits and stripped of its trailing zeros.
\<close>

lemma formatUnits_exact:
  assumes "0 \<le> v" and "d \<le> 22"
  shows "formatUnits (ABigInt v) d =
           Inr (if v = 0 then ''0''
                else if v mod 10 ^ d = 0 then digits_of 10 (nat (v div 10 ^ d))
                else digits_of 10 (nat (v div 10 ^ d)) @ ''.'' @
                     strip_trailing_zeros
                       (padStart (digits_of 10 (nat (v mod 10 ^ d))) d CHR ''0''))"
proof -
  have p: "(0::int) < 10 ^ d" by simp
  have "0 \<le> v div 10 ^ d" "0 \<le> v mod 10 ^ d"
    using assms(1) by (simp_all add: pos_imp_zdiv_nonneg_iff)
  then show ?thesis
    by (simp add: formatUnits_def andThen_def BigInt_of_toString pow10_exact [OF assms(2)]
        bigint_div_nonneg [OF assms(1) p] bigint_mod_nonneg [OF assms(1) p]
        BigInt_toString_nonneg Let_def)
qed

text \<open>
  The boundary cases of the specification.
\<close>

lemma formatUnits_boundary:
  "formatUnits (AString ''0'') 18 = Inr ''0''"
  "formatUnits (AString ''1000000000000000000'') 18 = Inr ''1''"
  "formatUnits (AString ''1500000000000000000'') 18 = Inr ''1.5''"
  by (simp_all add: formatUnits_def andThen_def pow10_18 bigint_div_def bigint_mod_def
      padStart_def strip_trailing_zeros_def Let_def eval_simps)

text \<open>
  No double is \<open>10 ^ 23\<close>: a double is a significand below \<open>2 ^ 53\<close> times a power of
  two, so whatever the engine returns for \<open>10 ** 23\<close>, the divisor is not \<open>10 ^ 23\<close>.
\<close>

lemma no_double_is_10_pow_23:
  fixes m e :: nat
  assumes "m < 2 ^ 53"
  shows "m * 2 ^ e \<noteq> 10 ^ 23"
proof
  assume eq: "m * 2 ^ e = 10 ^ 23"
  show False
  proof (cases "e \<le> 23")
    case True
    then have "(2::nat) ^ 23 = 2 ^ (23 - e) * 2 ^ e" by (simp add: power_add [symmetric])
    moreover have "(10::nat) ^ 23 = 5 ^ 23 * 2 ^ 23" by simp
    ultimately have "m * 2 ^ e = (5 ^ 23 * 2 ^ (23 - e)) * 2 ^ e"
      using eq by (simp only: mult.assoc)
    then have "m = 5 ^ 23 * 2 ^ (23 - e)" by simp
    moreover have "(1::nat) \<le> 2 ^ (23 - e)" by simp
    ultimately have "(5::nat) ^ 23 \<le> m" by (metis mult.right_neutral mult_le_mono2)
    with assms show False by simp
  next
    case False
    then have "\<exists>k. e = 24 + k" by presburger
    then obtain k where k: "e = 24 + k" ..
    have "(2::nat) ^ e = 2 ^ 24 * 2 ^ k" by (simp only: k power_add)
    with eq have "(10::nat) ^ 23 = 2 ^ 24 * (m * 2 ^ k)"
      by (simp only: mult.commute mult.left_commute)
    then have "(2::nat) ^ 24 dvd 10 ^ 23" by (rule dvdI)
    then show False by simp
  qed
qed

text \<open>
  C6. With 23 decimals the divisor \<open>BigInt(10 ** 23)\<close> is not \<open>10 ^ 23\<close>: the power is
  taken on doubles, and the double nearest to \<open>10 ^ 23\<close> is 99999999999999991611392.
  The base amount \<open>10 ^ 23\<close> is then formatted with a fractional part, where exact
  division gives \<open>1\<close>.
\<close>

theorem formatUnits_23_decimals_inexact:
  "pow10 23 = Inr 99999999999999991611392
   \<and> formatUnits (AString ''100000000000000000000000'') 23 =
       Inr ''1.00000000000000008388608''"
  by (simp add: formatUnits_def andThen_def pow10_def round_to_double_def bit_length.simps
      bigint_div_def bigint_mod_def padStart_def strip_trailing_zeros_def Let_def eval_simps)

section \<open>The two formatters\<close>

lemma formatUnits_decimal_string:
  assumes "list_all is_decimal_digit v"
  shows "formatUnits (AString v) 18 =
           Inr (if digits_value 10 v = 0 then ''0''
                else if digits_value 10 v mod 10 ^ 18 = 0
                  then digits_of 10 (digits_value 10 v div 10 ^ 18)
                else digits_of 10 (digits_value 10 v div 10 ^ 18) @ ''.'' @
                     strip_trailing_zeros
                       (padStart (digits_of 10 (digits_value 10 v mod 10 ^ 18)) 18 CHR ''0''))"
proof -
  let ?n = "digits_value 10 v"
  have p: "(0::int) < 1000000000000000000" by simp
  have n: "(0::int) \<le> int ?n" by simp
  have d: "int ?n div 1000000000000000000 = int (?n div 10 ^ 18)"
    by (simp add: zdiv_int)
  have m: "int ?n mod 1000000000000000000 = int (?n mod 10 ^ 18)"
    by (simp add: zmod_int)
  show ?thesis
    by (simp add: formatUnits_def andThen_def BigInt_decimal [OF assms] pow10_18 Let_def
        bigint_div_nonneg [OF n p] bigint_mod_nonneg [OF n p] d m BigInt_toString_def
        del: of_nat_power of_nat_numeral)
qed

lemma formatTokenAmount_parts:
  assumes "v \<noteq> []" "v \<noteq> ''0''"
  shows "formatTokenAmount v 18 =
           (let p = padStart v 19 CHR ''0'';
                a = take (length p - 18) p;
                f = drop (length p - 18) p
            in if strip_trailing_zeros f = [] then a else a @ ''.'' @ strip_trailing_zeros f)"
proof -
  let ?p = "padStart v 19 CHR ''0''"
  have len: "19 \<le> length ?p" by (simp add: padStart_def)
  then have a: "slice ?p 0 (- 18) = take (length ?p - 18) ?p"
    by (simp add: slice_def slice_index_def nat_diff_distrib)
  from len have f: "slice_from ?p (- 18) = drop (length ?p - 18) ?p"
    by (simp add: slice_from_def slice_index_def nat_diff_distrib)
  from len have "take (length ?p - 18) ?p \<noteq> []" by auto
  with assms a f show ?thesis
    by (simp add: formatTokenAmount_def Let_def)
qed

text \<open>
  C9 (amended). On every string of decimal digits that has at most 19 characters or
  does not start with \<open>0\<close>, \<open>formatUnits\<close> with 18 decimals returns exactly the string
  that \<open>formatTokenAmount\<close> with 18 decimals returns.
\<close>

theorem formatUnits_formatTokenAmount_agree:
  assumes "list_all is_decimal_digit v" and "length v \<le> 19 \<or> take 1 v \<noteq> ''0''"
  shows "formatUnits (AString v) 18 = Inr (formatTokenAmount v 18)"
proof (cases "v = []")
  case True
  then show ?thesis
    by (simp add: formatUnits_decimal_string digits_value_Nil formatTokenAmount_def)
next
  case False
  define p where "p = padStart v 19 CHR ''0''"
  define a where "a = take (length p - 18) p"
  define f where "f = drop (length p - 18) p"
  define n where "n = digits_value 10 v"
  have len: "19 \<le> length p" by (simp add: p_def padStart_def)
  have pv: "p = replicate (19 - length v) CHR ''0'' @ v" by (simp add: p_def padStart_def)
  have z: "is_decimal_digit CHR ''0''" by (simp add: is_decimal_digit_def)
  have dp: "list_all is_decimal_digit p"
    using assms(1) z unfolding pv list_all_iff by auto
  have da: "list_all is_decimal_digit a"
    using dp unfolding a_def list_all_iff by (blast dest: in_set_takeD)
  have df: "list_all is_decimal_digit f"
    using dp unfolding f_def list_all_iff by (blast dest: in_set_dropD)
  have vf: "list_all (valid_digit 10) f"
    using df by (simp add: list_all_iff decimal_digit_valid)
  have lf: "length f = 18" using len by (simp add: f_def)
  have la: "length a = length p - 18" by (simp add: a_def)
  have ane: "a \<noteq> []" using len la by auto
  have fne: "f \<noteq> []" using lf by auto
  have paf: "p = a @ f" by (simp add: a_def f_def)
  have "digits_value 10 p = n" by (simp add: pv n_def digits_value_zeros_append)
  then have nval: "n = digits_value 10 a * 10 ^ 18 + digits_value 10 f"
    by (simp add: paf digits_value_append lf)
  have fb: "digits_value 10 f < 10 ^ 18"
    using digits_value_bound [OF vf] by (simp add: lf)
  have ndiv: "n div 10 ^ 18 = digits_value 10 a" using fb by (simp add: nval)
  have nmod: "n mod 10 ^ 18 = digits_value 10 f" using fb by (simp add: nval)
  have canon: "length a = 1 \<or> hd a \<noteq> CHR ''0''"
  proof (cases "length v \<le> 19")
    case True
    then have "length p = 19" by (simp add: pv)
    with la show ?thesis by simp
  next
    case False
    with assms(2) \<open>v \<noteq> []\<close> have h: "hd v \<noteq> CHR ''0''" by (cases v) auto
    from False have "p = v" by (simp add: pv)
    with False have "a = take (length v - 18) v" "0 < length v - 18" by (simp_all add: a_def)
    then have "hd a = hd v" by (cases v) (auto simp: take_Cons')
    with h show ?thesis by simp
  qed
  have pa: "digits_of 10 (digits_value 10 a) = a"
    using da ane canon by (rule digits_of_value_canonical)
  have pf: "padStart (digits_of 10 (digits_value 10 f)) 18 CHR ''0'' = f"
    using padStart_digits_of_value [OF df fne] by (simp add: lf)
  have sz: "(strip_trailing_zeros f = []) = (digits_value 10 f = 0)"
  proof
    assume "strip_trailing_zeros f = []"
    then have "f = replicate (length f) CHR ''0''" by (simp add: strip_trailing_zeros_Nil_iff)
    then show "digits_value 10 f = 0" by (metis digits_value_zeros)
  next
    assume "digits_value 10 f = 0"
    with df have "f = replicate (length f) CHR ''0''" by (intro decimal_value_0)
    then show "strip_trailing_zeros f = []" by (simp add: strip_trailing_zeros_Nil_iff)
  qed
  have fu: "formatUnits (AString v) 18 =
      Inr (if n = 0 then ''0''
           else if digits_value 10 f = 0 then a
           else a @ ''.'' @ strip_trailing_zeros f)"
    unfolding formatUnits_decimal_string [OF assms(1)] n_def [symmetric] ndiv nmod pa pf ..
  show ?thesis
  proof (cases "v = ''0''")
    case True
    then show ?thesis
      by (simp add: formatUnits_decimal_string formatTokenAmount_def digits_value_def
          digit_value_def digit_val_def is_decimal_digit_def)
  next
    case v0: False
    have ft: "formatTokenAmount v 18 =
        (if digits_value 10 f = 0 then a else a @ ''.'' @ strip_trailing_zeros f)"
      using formatTokenAmount_parts [OF False v0]
      by (simp add: Let_def p_def [symmetric] a_def [symmetric] f_def [symmetric] sz)
    show ?thesis
    proof (cases "n = 0")
      case True
      with nval have a0: "digits_value 10 a = 0" and f0: "digits_value 10 f = 0" by simp_all
      from pa a0 have "a = ''0''" by (simp add: digits_of_0 digit_char_def)
      with f0 True show ?thesis by (simp add: fu ft)
    next
      case False
      then show ?thesis by (simp add: fu ft)
    qed
  qed
qed

text \<open>
  Both formatters on one and a half units.
\<close>

theorem formatUnits_formatTokenAmount_agree_witness:
  "formatUnits (AString ''1500000000000000000'') 18 =
     Inr (formatTokenAmount ''1500000000000000000'' 18)"
proof -
  have 1: "list_all is_decimal_digit ''1500000000000000000''"
    by (simp add: is_decimal_digit_def)
  have 2: "length ''1500000000000000000'' \<le> 19 \<or> take 1 ''1500000000000000000'' \<noteq> ''0''"
    by simp
  from formatUnits_formatTokenAmount_agree [OF 1 2] show ?thesis .
qed

text \<open>
  As stated, C9 fails on twenty zeros: \<open>formatUnits\<close> prints the number zero,
  \<open>formatTokenAmount\<close> keeps the two zeros in front of the last 18 digits.
\<close>

theorem formatUnits_formatTokenAmount_leading_zeros_counterexample:
  "list_all is_decimal_digit ''00000000000000000000''
   \<and> formatUnits (AString ''00000000000000000000'') 18 = Inr ''0''
   \<and> formatTokenAmount ''00000000000000000000'' 18 = ''00''"
  by (simp add: is_decimal_digit_def formatUnits_def andThen_def formatTokenAmount_def
      padStart_def slice_def slice_from_def slice_index_def strip_trailing_zeros_def
      Let_def eval_simps)

end
